theory Spec2Isabelle
  imports Main
begin

section \<open>The relational store\<close>

text \<open>
  The indexer mirrors on-chain events into relational tables. The tables of the
  synchronization architecture notes are modelled as follows: \<open>blockchain_events\<close> is the
  raw event log, kept as a list in insertion order; \<open>properties\<close> and \<open>user_portfolio\<close>
  are the application tables written by \<open>handleSharesPurchased\<close>, each a map from its
  natural key to its row; \<open>indexer_state\<close> holds one checkpoint row per contract address.
  Block numbers, share amounts and timestamps are \<open>BIGINT\<close> columns and are modelled as
  unbounded integers. The store-generated columns \<open>id\<close> and \<open>updated_at\<close> are read by
  no operation and are left out.
\<close>

text \<open>
  One delivery of an event to its handler, and one row of \<open>blockchain_events\<close>. The
  \<open>args\<close> column of a \<open>SharesPurchased\<close> event holds \<open>tokenId\<close>, \<open>buyer\<close>, \<open>amount\<close> and
  \<open>totalPrice\<close>. \<open>processed_at\<close> is the reading of the database clock, \<open>NOW()\<close>, when the
  delivery is handled: the raw row keeps it in its \<open>processed_at\<close> column and the
  portfolio writes store it in \<open>last_updated\<close> (the portfolio update written out in the
  sources sets \<open>last_updated = NOW()\<close>). The clock reading is an input of a handler run,
  like the failing write, and travels with the delivery; in a batch of raw logs it comes
  with the decoded event.
\<close>

record blockchain_event =
  event_name :: string
  contract_address :: string
  block_number :: int
  transaction_hash :: string
  log_index :: int
  tokenId :: int
  buyer :: string
  amount :: int
  totalPrice :: int
  processed_at :: int

record property_row =
  total_shares :: int
  available_shares :: int

record portfolio_row =
  shares_owned :: int
  last_updated :: int

record checkpoint =
  last_processed_block :: int
  last_block_hash :: string
  last_checkpoint_block :: int
  last_checkpoint_hash :: string

text \<open>A raw log as the chain client returns it, before decoding.\<close>

record raw_log =
  rl_block_number :: int
  rl_block_hash :: string
  rl_transaction_hash :: string
  rl_log_index :: int
  rl_topics :: "string list"
  rl_data :: string

datatype decode_error = UnknownEvent | MalformedData

record db =
  blockchain_events :: "blockchain_event list"
  properties :: "int \<rightharpoonup> property_row"
  user_portfolio :: "(string \<times> int) \<rightharpoonup> portfolio_row"
  indexer_state :: "string \<rightharpoonup> checkpoint"
  dead_letters :: "(raw_log \<times> decode_error) list"

datatype db_error = NetworkError | CheckViolation | RPCUnavailable

text \<open>
  A database write can fail (the notes' Scenario 2: \<open>updateProperties\<close> fails with a network
  error after \<open>storeEvent\<close> succeeded). The failing write of one handler run is an input of
  the model. A crash of the process after a write has the same persisted state as a failure
  of the next write, so the same four cases cover a crash at every point of a handler.
\<close>

datatype fault = NoFault | StoreEventFails | UpdatePropertiesFails | PortfolioWriteFails

section \<open>Address normalization\<close>

text \<open>
  \<open>const wallet = address.toLowerCase()\<close>. Addresses are ASCII (\<open>0x\<close> and hexadecimal
  digits); the letters \<open>A\<close> to \<open>Z\<close> (codes 65 to 90) are mapped to \<open>a\<close> to \<open>z\<close>, every other
  byte is kept.
\<close>

definition toLowerCaseChar :: "char \<Rightarrow> char" where
  "toLowerCaseChar c =
     (let n = (of_char c :: nat) in if 65 \<le> n \<and> n \<le> 90 then char_of (n + 32) else c)"

definition toLowerCase :: "string \<Rightarrow> string" where
  "toLowerCase s = map toLowerCaseChar s"

section \<open>Event handlers\<close>

text \<open>The unique constraint of \<open>blockchain_events\<close> is on \<open>(transaction_hash, log_index)\<close>.\<close>

definition event_key :: "blockchain_event \<Rightarrow> string \<times> int" where
  "event_key e = (transaction_hash e, log_index e)"

definition event_keys :: "db \<Rightarrow> (string \<times> int) list" where
  "event_keys d = map event_key (blockchain_events d)"

text \<open>
  \<open>storeEvent\<close>: insert the raw event; a duplicate insert fails silently and leaves the
  table as it is (the notes: duplicate, skipped).
\<close>

definition storeEvent :: "blockchain_event \<Rightarrow> db \<Rightarrow> db" where
  "storeEvent e d =
     (if event_key e \<in> set (event_keys d) then d
      else d\<lparr>blockchain_events := blockchain_events d @ [e]\<rparr>)"

text \<open>
  \<open>update properties set available_shares = available_shares - amount where token_id =
  tokenId\<close>: an update of a row that does not exist changes nothing.
\<close>

definition updateProperties :: "blockchain_event \<Rightarrow> db \<Rightarrow> db" where
  "updateProperties e d =
     (case properties d (tokenId e) of
        None \<Rightarrow> d
      | Some p \<Rightarrow>
          d\<lparr>properties := (properties d)(tokenId e \<mapsto>
               p\<lparr>available_shares := available_shares p - amount e\<rparr>)\<rparr>)"

text \<open>
  The insert of a portfolio row. The table carries
  \<open>CONSTRAINT wallet_lowercase CHECK (wallet_address = LOWER(wallet_address))\<close>: the
  insert of a row whose wallet address is not in lower case is rejected.
\<close>

definition insertPortfolio :: "string \<Rightarrow> int \<Rightarrow> portfolio_row \<Rightarrow> db \<Rightarrow> db option" where
  "insertPortfolio wallet_address t row d =
     (if wallet_address = toLowerCase wallet_address
      then Some (d\<lparr>user_portfolio := (user_portfolio d)((wallet_address, t) \<mapsto> row)\<rparr>)
      else None)"

text \<open>
  Modelled from the spec: the body of the portfolio helper \<open>getPortfolio\<close>, which the
  handler calls and which is not among the sources. A balance row is keyed by holder
  address and token; the helper takes the address as the handler passes it and, by the
  notes' rule for addresses (\<open>const wallet = address.toLowerCase()\<close>, always lower case),
  looks the row up under its lower-case form.
\<close>

definition getPortfolio :: "string \<Rightarrow> int \<Rightarrow> db \<Rightarrow> portfolio_row option" where
  "getPortfolio address t d = user_portfolio d (toLowerCase address, t)"

text \<open>
  Modelled from the spec: the body of the portfolio helper \<open>updatePortfolio\<close>, which is
  not among the sources. It increments the shares of the existing row (the notes:
  increment shares, \<open>shares + 10\<close> not \<open>= 10\<close>), under the lower-case address, and sets
  \<open>last_updated\<close> to the clock reading of the handler run.
\<close>

definition updatePortfolio ::
  "string \<Rightarrow> int \<Rightarrow> portfolio_row \<Rightarrow> blockchain_event \<Rightarrow> db \<Rightarrow> db" where
  "updatePortfolio address t existing e d =
     d\<lparr>user_portfolio := (user_portfolio d)((toLowerCase address, t) \<mapsto>
          existing\<lparr>shares_owned := shares_owned existing + amount e,
                   last_updated := processed_at e\<rparr>)\<rparr>"

text \<open>
  Modelled from the spec: the body of the portfolio helper \<open>createPortfolio\<close>, which is
  not among the sources. It inserts a new row for the lower-case address with the
  purchased amount, last updated at the clock reading of the handler run.
\<close>

definition createPortfolio :: "string \<Rightarrow> int \<Rightarrow> blockchain_event \<Rightarrow> db \<Rightarrow> db option" where
  "createPortfolio address t e d =
     insertPortfolio (toLowerCase address) t
       \<lparr>shares_owned = amount e, last_updated = processed_at e\<rparr> d"

text \<open>
  Step 3 of the handler, as the notes give it: \<open>existing = getPortfolio(buyer, tokenId)\<close>;
  if there is a row, increment its shares, otherwise create the entry. A rejected insert
  is an error of the handler.
\<close>

definition writePortfolio :: "blockchain_event \<Rightarrow> db \<Rightarrow> db_error option \<times> db" where
  "writePortfolio e d =
     (case getPortfolio (buyer e) (tokenId e) d of
        Some existing \<Rightarrow> (None, updatePortfolio (buyer e) (tokenId e) existing e d)
      | None \<Rightarrow>
          (case createPortfolio (buyer e) (tokenId e) e d of
             None \<Rightarrow> (Some CheckViolation, d)
           | Some d' \<Rightarrow> (None, d')))"

text \<open>
  \<open>handleSharesPurchased\<close>, in the order of the notes: 1. store the raw event, 2. update
  \<open>properties\<close>, 3. update or create the portfolio row of the buyer. The result of
  \<open>storeEvent\<close> is not inspected, so the handler goes on to steps 2 and 3 after a skipped
  duplicate as well (Scenario 2, recovery steps 4 and 5). There is no transaction around
  the steps: the store returned with an error is what the writes before the failure left
  behind. The argument checks of the notes' security section (a positive amount, a
  well-formed address) are not part of the handler as the notes give it; the events of the
  examples below pass them.
\<close>

definition handleSharesPurchased ::
  "fault \<Rightarrow> blockchain_event \<Rightarrow> db \<Rightarrow> db_error option \<times> db" where
  "handleSharesPurchased f e d =
     (if f = StoreEventFails then (Some NetworkError, d)
      else
        let d1 = storeEvent e d in
        if f = UpdatePropertiesFails then (Some NetworkError, d1)
        else
          let d2 = updateProperties e d1 in
          if f = PortfolioWriteFails then (Some NetworkError, d2)
          else writePortfolio e d2)"

text \<open>
  A batch of decoded events is handled in order; the first handler error ends the batch
  and leaves the store as it is at that point.
\<close>

fun applyEvents :: "(fault \<times> blockchain_event) list \<Rightarrow> db \<Rightarrow> db_error option \<times> db" where
  "applyEvents [] d = (None, d)"
| "applyEvents ((f, e) # rest) d =
     (case handleSharesPurchased f e d of
        (Some err, d') \<Rightarrow> (Some err, d')
      | (None, d') \<Rightarrow> applyEvents rest d')"

section \<open>Checkpoints and reorg protection\<close>

definition zero_checkpoint :: checkpoint where
  "zero_checkpoint =
     \<lparr>last_processed_block = 0, last_block_hash = [],
      last_checkpoint_block = 0, last_checkpoint_hash = []\<rparr>"

definition load :: "string \<Rightarrow> db \<Rightarrow> checkpoint" where
  "load addr d = (case indexer_state d addr of None \<Rightarrow> zero_checkpoint | Some cp \<Rightarrow> cp)"

definition save :: "string \<Rightarrow> checkpoint \<Rightarrow> db \<Rightarrow> db" where
  "save addr cp d = d\<lparr>indexer_state := (indexer_state d)(addr \<mapsto> cp)\<rparr>"

record chain_client =
  available :: bool
  latestBlockNumber :: int
  getBlockHash :: "int \<Rightarrow> string"
  getBlockTimestamp :: "int \<Rightarrow> int"
  getLogs :: "int \<Rightarrow> int \<Rightarrow> raw_log list"

record config =
  confirmationsRequired :: int
  batchSize :: int
  checkpointInterval :: int

text \<open>
  The reorg check of every indexer run: fetch the block at the checkpoint height and
  compare its hash with the stored checkpoint hash.
\<close>

definition reorgDetected :: "chain_client \<Rightarrow> checkpoint \<Rightarrow> bool" where
  "reorgDetected ch cp =
     (getBlockHash ch (last_checkpoint_block cp) \<noteq> last_checkpoint_hash cp)"

text \<open>
  The rollback of the notes' example: 1. delete from \<open>blockchain_events\<close> where
  \<open>block_number >= last_checkpoint_block\<close>, 2. delete from \<open>user_portfolio\<close> where
  \<open>last_updated\<close> is at or after the timestamp of the checkpoint block, 4. set
  \<open>last_processed_block\<close> to the block before the checkpoint. Step 3, the cascade to
  tables that refer to the deleted rows, has nothing to delete here: no table of the model
  refers to a portfolio row. The checkpoint block and hash themselves are not written.
\<close>

definition rollback :: "chain_client \<Rightarrow> string \<Rightarrow> checkpoint \<Rightarrow> db \<Rightarrow> db" where
  "rollback ch addr cp d =
     save addr (cp\<lparr>last_processed_block := last_checkpoint_block cp - 1\<rparr>)
       (d\<lparr>blockchain_events :=
            filter (\<lambda>e. \<not> block_number e \<ge> last_checkpoint_block cp) (blockchain_events d),
          user_portfolio :=
            (\<lambda>k. case user_portfolio d k of
                   None \<Rightarrow> None
                 | Some r \<Rightarrow>
                     if last_updated r \<ge> getBlockTimestamp ch (last_checkpoint_block cp)
                     then None else Some r)\<rparr>)"

definition checkReorg :: "chain_client \<Rightarrow> string \<Rightarrow> db \<Rightarrow> db" where
  "checkReorg ch addr d =
     (let cp = load addr d in if reorgDetected ch cp then rollback ch addr cp d else d)"

text \<open>Processing continues with the block after the last processed one.\<close>

definition fromBlock :: "checkpoint \<Rightarrow> int" where
  "fromBlock cp = last_processed_block cp + 1"

section \<open>The reconciliation driver\<close>

text \<open>
  Modelled from the spec: the checkpoint update after a committed batch (driver loop,
  step 7), whose code is not among the sources. \<open>last_processed_block\<close> becomes
  \<open>toBlock\<close>; when the processed range reaches a multiple of the checkpoint interval
  (the notes: a checkpoint every 100 blocks), the checkpoint block and hash are set to the
  highest such block and its hash.
\<close>

definition advanceCheckpoint :: "config \<Rightarrow> chain_client \<Rightarrow> int \<Rightarrow> checkpoint \<Rightarrow> checkpoint" where
  "advanceCheckpoint cfg ch toBlock cp =
     (let c = (toBlock div checkpointInterval cfg) * checkpointInterval cfg;
          cp1 = cp\<lparr>last_processed_block := toBlock, last_block_hash := getBlockHash ch toBlock\<rparr>
      in if c > last_processed_block cp
         then cp1\<lparr>last_checkpoint_block := c, last_checkpoint_hash := getBlockHash ch c\<rparr>
         else cp1)"

text \<open>
  Modelled from the spec: the decode-and-apply loop of the driver (event decoder, driver
  loop step 6, decode errors of the error taxonomy), whose code is not among the sources.
  The decoder is a parameter. A log on which it returns an error is kept,
  with the error, in \<open>dead_letters\<close> (the raw log payload preserved for manual inspection)
  and the loop goes on; a decoded event is passed to its handler. A handler error ends the
  batch with the writes made so far in place: the spec aborts a batch transaction here,
  but the notes, which are the source, have none (Scenario 2: after the failed
  \<open>updateProperties\<close> the event is in the \<open>blockchain_events\<close> table).
\<close>

fun processBatch ::
  "(raw_log \<Rightarrow> decode_error + blockchain_event) \<Rightarrow> (fault \<times> raw_log) list \<Rightarrow> db
     \<Rightarrow> db_error option \<times> db" where
  "processBatch decode [] d = (None, d)"
| "processBatch decode ((f, l) # rest) d =
     (case decode l of
        Inl err \<Rightarrow> processBatch decode rest (d\<lparr>dead_letters := dead_letters d @ [(l, err)]\<rparr>)
      | Inr e \<Rightarrow>
          (case handleSharesPurchased f e d of
             (Some x, d') \<Rightarrow> (Some x, d')
           | (None, d') \<Rightarrow> processBatch decode rest d'))"

text \<open>The fault, if any, that meets the i-th log of a batch.\<close>

definition attachFaults :: "(nat \<Rightarrow> fault) \<Rightarrow> 'a list \<Rightarrow> (fault \<times> 'a) list" where
  "attachFaults flt xs = zip (map flt [0..<length xs]) xs"

text \<open>
  Modelled from the spec: step 3 of the driver loop, whose code is not among the sources:
  stay \<open>confirmationsRequired\<close> blocks behind the chain head (the notes: 3 confirmations)
  and process at most \<open>batchSize\<close> blocks.
\<close>

definition computeToBlock :: "config \<Rightarrow> chain_client \<Rightarrow> checkpoint \<Rightarrow> int" where
  "computeToBlock cfg ch cp =
     min (latestBlockNumber ch - confirmationsRequired cfg)
         (last_processed_block cp + batchSize cfg)"

text \<open>
  One indexer run, as the notes give it: load the checkpoint, compare the hash of the
  checkpoint block and roll back on a mismatch, fetch and process the logs of the next
  range, save the state. The notes give its failures too: when the RPC provider is down
  the run ends and is tried again (Scenario 3); when a database write fails the run ends
  with the raw event in the table and the block not marked as processed, and the next run
  reprocesses the range (Scenario 2). So a failed batch keeps its writes and leaves the
  checkpoint alone; the batch transaction of the spec is not in the notes. The range is
  that of \<open>computeToBlock\<close>; a run without a new confirmed block ends after the reorg
  check.
\<close>

definition runCycle ::
  "config \<Rightarrow> chain_client \<Rightarrow> (raw_log \<Rightarrow> decode_error + blockchain_event) \<Rightarrow> (nat \<Rightarrow> fault)
     \<Rightarrow> string \<Rightarrow> db \<Rightarrow> db_error option \<times> db" where
  "runCycle cfg ch decode flt addr d =
     (if \<not> available ch then (Some RPCUnavailable, d)
      else
        let d1 = checkReorg ch addr d;
            cp = load addr d1;
            toBlock = computeToBlock cfg ch cp
        in if toBlock \<le> last_processed_block cp then (None, d1)
           else
             (case processBatch decode (attachFaults flt (getLogs ch (fromBlock cp) toBlock)) d1 of
                (Some err, d2) \<Rightarrow> (Some err, d2)
              | (None, d2) \<Rightarrow> (None, save addr (advanceCheckpoint cfg ch toBlock cp) d2)))"

definition empty_db :: db where
  "empty_db =
     \<lparr>blockchain_events = [], properties = Map.empty, user_portfolio = Map.empty,
      indexer_state = Map.empty, dead_letters = []\<rparr>"

text \<open>The stores the indexer can reach: the empty store, and the store after any cycle.\<close>

inductive reachable ::
  "config \<Rightarrow> (raw_log \<Rightarrow> decode_error + blockchain_event) \<Rightarrow> string \<Rightarrow> db \<Rightarrow> bool"
  for cfg decode addr where
  start: "reachable cfg decode addr empty_db"
| cycle: "reachable cfg decode addr d \<Longrightarrow>
          reachable cfg decode addr (snd (runCycle cfg ch decode flt addr d))"

text \<open>The events of the logs of a batch that decode, and the logs that do not.\<close>

definition decodedEvents ::
  "(raw_log \<Rightarrow> decode_error + blockchain_event) \<Rightarrow> raw_log list \<Rightarrow> blockchain_event list" where
  "decodedEvents decode logs =
     List.map_filter (\<lambda>l. case decode l of Inl err \<Rightarrow> None | Inr e \<Rightarrow> Some e) logs"

definition decodeFailures ::
  "(raw_log \<Rightarrow> decode_error + blockchain_event) \<Rightarrow> raw_log list
     \<Rightarrow> (raw_log \<times> decode_error) list" where
  "decodeFailures decode logs =
     List.map_filter (\<lambda>l. case decode l of Inl err \<Rightarrow> Some (l, err) | Inr e \<Rightarrow> None) logs"

section \<open>Replay\<close>

text \<open>
  The derived state is the content of the application tables. Replaying a stored raw event
  applies the derived mutations of its handler (steps 2 and 3; the event is already
  stored), at the clock reading kept in its row; a rebuild wipes the application tables
  and replays the raw event log in stored order.
\<close>

definition derived :: "db \<Rightarrow> (int \<rightharpoonup> property_row) \<times> ((string \<times> int) \<rightharpoonup> portfolio_row)" where
  "derived d = (properties d, user_portfolio d)"

definition replayEvent :: "blockchain_event \<Rightarrow> db \<Rightarrow> db" where
  "replayEvent e d = snd (writePortfolio e (updateProperties e d))"

definition wipeDerived :: "db \<Rightarrow> db" where
  "wipeDerived d = d\<lparr>properties := Map.empty, user_portfolio := Map.empty\<rparr>"

definition replayAll :: "db \<Rightarrow> db" where
  "replayAll d = fold replayEvent (blockchain_events d) (wipeDerived d)"

section \<open>The writes of a run\<close>

text \<open>
  The database writes a handler run has completed when it returns, in order: a run that
  fails at a write has completed the writes before it.
\<close>

datatype db_write =
  StoreEvent blockchain_event
| UpdateProperties blockchain_event
| WritePortfolio blockchain_event

fun execWrite :: "db_write \<Rightarrow> db \<Rightarrow> db" where
  "execWrite (StoreEvent e) d = storeEvent e d"
| "execWrite (UpdateProperties e) d = updateProperties e d"
| "execWrite (WritePortfolio e) d = snd (writePortfolio e d)"

fun handlerWrites :: "fault \<Rightarrow> blockchain_event \<Rightarrow> db_write list" where
  "handlerWrites StoreEventFails e = []"
| "handlerWrites UpdatePropertiesFails e = [StoreEvent e]"
| "handlerWrites PortfolioWriteFails e = [StoreEvent e, UpdateProperties e]"
| "handlerWrites NoFault e = [StoreEvent e, UpdateProperties e, WritePortfolio e]"

fun batchWrites :: "(fault \<times> blockchain_event) list \<Rightarrow> db_write list" where
  "batchWrites [] = []"
| "batchWrites ((f, e) # rest) =
     (if f = NoFault then handlerWrites f e @ batchWrites rest else handlerWrites f e)"

fun derivedWriteOf :: "db_write \<Rightarrow> blockchain_event option" where
  "derivedWriteOf (StoreEvent e) = None"
| "derivedWriteOf (UpdateProperties e) = Some e"
| "derivedWriteOf (WritePortfolio e) = Some e"

text \<open>
  A sequence of writes stores first when every derived write in it comes after the raw
  insert of its event, or after that of an event in \<open>seen\<close>.
\<close>

fun storedFirst :: "blockchain_event list \<Rightarrow> db_write list \<Rightarrow> bool" where
  "storedFirst seen [] = True"
| "storedFirst seen (StoreEvent e # ws) = storedFirst (e # seen) ws"
| "storedFirst seen (UpdateProperties e # ws) = (e \<in> set seen \<and> storedFirst seen ws)"
| "storedFirst seen (WritePortfolio e # ws) = (e \<in> set seen \<and> storedFirst seen ws)"

section \<open>Concrete data\<close>

definition propertyShare :: string where
  "propertyShare = ''0x3809c6ae1d7c2a1e4f0b5d9a8c7e6f5a4b3c2d1e''"

definition alice :: string where
  "alice = ''0x8e1e7f06c9d62edeb55ff9d9c45d3d8d97a905a6''"


definition purchase :: "int \<Rightarrow> string \<Rightarrow> int \<Rightarrow> string \<Rightarrow> int \<Rightarrow> int \<Rightarrow> blockchain_event" where
  "purchase blk tx li who n ts =
     \<lparr>event_name = ''SharesPurchased'', contract_address = propertyShare,
      block_number = blk, transaction_hash = tx, log_index = li,
      tokenId = 1, buyer = who, amount = n, totalPrice = 100 * n, processed_at = ts\<rparr>"

definition db1 :: db where
  "db1 = empty_db\<lparr>properties := [1 \<mapsto> \<lparr>total_shares = 100, available_shares = 100\<rparr>]\<rparr>"

definition tx1 :: string where
  "tx1 = ''0xabc1''"

definition tx2 :: string where
  "tx2 = ''0xabc2''"

definition ev_a :: blockchain_event where
  "ev_a = purchase 12390 tx1 0 alice 10 1239000"

definition ev_b :: blockchain_event where
  "ev_b = purchase 12420 tx2 3 alice 5 1242000"

text \<open>
  The state of the notes' reorg example: processed up to block 12450, checkpoint at block
  12400 with hash \<open>0xabc123\<close>; two purchases of the same buyer are stored, one below and
  one above the checkpoint.
\<close>

definition cp_example :: checkpoint where
  "cp_example =
     \<lparr>last_processed_block = 12450, last_block_hash = ''0x777'',
      last_checkpoint_block = 12400, last_checkpoint_hash = ''0xabc123''\<rparr>"

definition db_example :: db where
  "db_example =
     save propertyShare cp_example
       (snd (applyEvents [(NoFault, ev_a), (NoFault, ev_b)] empty_db))"

text \<open>A chain on which block 12400 now has the hash \<open>0xdef456\<close>.\<close>

definition chain_reorged :: chain_client where
  "chain_reorged =
     \<lparr>available = True, latestBlockNumber = 12460,
      getBlockHash = (\<lambda>n. ''0xdef456''),
      getBlockTimestamp = (\<lambda>n. 100 * n),
      getLogs = (\<lambda>a b. [])\<rparr>"

text \<open>A chain on which the checkpoint block still has the stored hash.\<close>

definition chain_same :: chain_client where
  "chain_same = chain_reorged\<lparr>getBlockHash := (\<lambda>n. ''0xabc123'')\<rparr>"

definition cfg0 :: config where
  "cfg0 = \<lparr>confirmationsRequired = 3, batchSize = 1000, checkpointInterval = 100\<rparr>"

text \<open>
  A decoder for the examples: a log whose first topic is not \<open>SharesPurchased\<close> is
  unknown, one without data is malformed, and any other log is a purchase by \<open>alice\<close> of
  as many shares as the data has bytes.
\<close>

definition decode0 :: "raw_log \<Rightarrow> decode_error + blockchain_event" where
  "decode0 l =
     (case rl_topics l of
        [] \<Rightarrow> Inl UnknownEvent
      | t # ts \<Rightarrow>
          if t \<noteq> ''SharesPurchased'' then Inl UnknownEvent
          else if rl_data l = [] then Inl MalformedData
          else Inr (purchase (rl_block_number l) (rl_transaction_hash l) (rl_log_index l)
                      alice (int (length (rl_data l))) (100 * rl_block_number l)))"

text \<open>The checkpoint of the notes' example after the rollback.\<close>

definition cp_rolled :: checkpoint where
  "cp_rolled = cp_example\<lparr>last_processed_block := 12399\<rparr>"

text \<open>One delivery of the purchase \<open>ev_a\<close> to a store with one property, and a second one.\<close>

definition db_once :: db where
  "db_once = snd (applyEvents [(NoFault, ev_a)] db1)"

definition db_twice :: db where
  "db_twice = snd (applyEvents [(NoFault, ev_a)] db_once)"

text \<open>
  A batch of five logs in the blocks after 12450; the third has no data and does not
  decode.
\<close>

definition mkLog :: "int \<Rightarrow> string \<Rightarrow> string \<Rightarrow> raw_log" where
  "mkLog blk tx dat =
     \<lparr>rl_block_number = blk, rl_block_hash = ''0x777'', rl_transaction_hash = tx,
      rl_log_index = 0, rl_topics = [''SharesPurchased''], rl_data = dat\<rparr>"

definition batch5 :: "raw_log list" where
  "batch5 =
     [mkLog 12451 ''0xt1'' ''aa'', mkLog 12452 ''0xt2'' ''bbb'', mkLog 12453 ''0xt3'' [],
      mkLog 12454 ''0xt4'' ''c'', mkLog 12455 ''0xt5'' ''dd'']"

text \<open>A chain without a reorg that returns the first log of the batch.\<close>

definition chain_one :: chain_client where
  "chain_one = chain_same\<lparr>getLogs := (\<lambda>a b. [mkLog 12451 ''0xt1'' ''aa''])\<rparr>"

definition db_start :: db where
  "db_start = save propertyShare cp_example db1"

text \<open>The first write after the raw insert of the first log fails.\<close>

definition fails_first :: "nat \<Rightarrow> fault" where
  "fails_first i = (if i = 0 then UpdatePropertiesFails else NoFault)"


text \<open>A chain without a reorg that returns the batch of five logs; no write fails.\<close>

definition chain_five :: chain_client where
  "chain_five = chain_same\<lparr>getLogs := (\<lambda>a b. batch5)\<rparr>"

definition no_fault :: "nat \<Rightarrow> fault" where
  "no_fault i = NoFault"

text \<open>
  A chain without a reorg that returns two logs; in the first cycle the write after the
  raw insert of the second log fails, the retry meets no failure.
\<close>

definition chain_two :: chain_client where
  "chain_two =
     chain_same\<lparr>getLogs := (\<lambda>a b. [mkLog 12451 ''0xt1'' ''aa'', mkLog 12452 ''0xt2'' ''bbb''])\<rparr>"

definition fails_second :: "nat \<Rightarrow> fault" where
  "fails_second i = (if i = 1 then UpdatePropertiesFails else NoFault)"

definition db_failed :: db where
  "db_failed = snd (runCycle cfg0 chain_two decode0 fails_second propertyShare db_start)"

definition db_retried :: db where
  "db_retried = snd (runCycle cfg0 chain_two decode0 no_fault propertyShare db_failed)"


text \<open>
  The notes' reorg example on a store with a property: the two purchases are applied to
  100 available shares, the checkpoint of the example is saved, and the reorg check meets
  the chain with the new hash at block 12400.
\<close>

definition db_example1 :: db where
  "db_example1 =
     save propertyShare cp_example
       (snd (applyEvents [(NoFault, ev_a), (NoFault, ev_b)] db1))"

definition db_rolled :: db where
  "db_rolled = checkReorg chain_reorged propertyShare db_example1"

text \<open>
  The same through the driver: a run over the two logs of \<open>chain_two\<close> without a failure,
  then a run against the chain with the new hash at block 12400.
\<close>

definition db_cycle1 :: db where
  "db_cycle1 = snd (runCycle cfg0 chain_two decode0 no_fault propertyShare db_start)"

definition db_cycle2 :: db where
  "db_cycle2 = snd (runCycle cfg0 chain_reorged decode0 no_fault propertyShare db_cycle1)"

section \<open>Basic facts\<close>

lemma toLowerCaseChar_idem: "toLowerCaseChar (toLowerCaseChar c) = toLowerCaseChar c"
  by (simp add: toLowerCaseChar_def Let_def)

lemma toLowerCase_idem: "toLowerCase (toLowerCase s) = toLowerCase s"
  by (simp add: toLowerCase_def toLowerCaseChar_idem)

lemma load_save: "load addr (save addr cp d) = cp"
  by (simp add: load_def save_def)

lemma save_events: "blockchain_events (save addr cp d) = blockchain_events d"
  by (simp add: save_def)

text \<open>The handler lower-cases the wallet address first, so the check constraint never fires.\<close>

lemma writePortfolio_ok: "fst (writePortfolio e d) = None"
  by (simp add: writePortfolio_def createPortfolio_def insertPortfolio_def toLowerCase_idem Let_def
      split: option.splits)

lemma alice_lower: "toLowerCase alice = alice"
  by code_simp


lemma db_example_events: "blockchain_events db_example = [ev_a, ev_b]"
  by (simp add: db_example_def save_def handleSharesPurchased_def storeEvent_def
      event_keys_def event_key_def updateProperties_def empty_db_def writePortfolio_def
      getPortfolio_def createPortfolio_def insertPortfolio_def updatePortfolio_def ev_a_def ev_b_def
      purchase_def tx1_def tx2_def Let_def alice_lower split: option.splits)

lemma db_example_checkpoint: "load propertyShare db_example = cp_example"
  by (simp add: db_example_def load_save)

section \<open>Reorg detection and rollback\<close>

text \<open>
  Claim C1. The reorg check before a batch, for every store and checkpoint: if the
  chain's hash at \<open>last_checkpoint_block\<close> equals \<open>last_checkpoint_hash\<close>, nothing is
  rolled back and processing proceeds from \<open>last_processed_block + 1\<close>; if it differs, the
  raw events that remain are exactly those with a block number below
  \<open>last_checkpoint_block\<close>, in their stored order, \<open>last_processed_block\<close> becomes
  \<open>last_checkpoint_block - 1\<close>, and processing resumes at the checkpoint block.
\<close>

theorem reorg_check:
  "(getBlockHash ch (last_checkpoint_block (load addr d)) = last_checkpoint_hash (load addr d) \<longrightarrow>
      checkReorg ch addr d = d \<and>
      fromBlock (load addr (checkReorg ch addr d)) = last_processed_block (load addr d) + 1) \<and>
   (getBlockHash ch (last_checkpoint_block (load addr d)) \<noteq> last_checkpoint_hash (load addr d) \<longrightarrow>
      blockchain_events (checkReorg ch addr d) =
        filter (\<lambda>e. block_number e < last_checkpoint_block (load addr d)) (blockchain_events d) \<and>
      last_processed_block (load addr (checkReorg ch addr d)) =
        last_checkpoint_block (load addr d) - 1 \<and>
      fromBlock (load addr (checkReorg ch addr d)) = last_checkpoint_block (load addr d))"
  by (simp add: checkReorg_def reorgDetected_def rollback_def load_save save_events
      fromBlock_def Let_def not_le)

theorem reorg_check_witness:
  "getBlockHash chain_reorged (last_checkpoint_block (load propertyShare db_example))
     \<noteq> last_checkpoint_hash (load propertyShare db_example) \<and>
   blockchain_events (checkReorg chain_reorged propertyShare db_example) = [ev_a] \<and>
   last_processed_block (load propertyShare (checkReorg chain_reorged propertyShare db_example))
     = 12399 \<and>
   getBlockHash chain_same (last_checkpoint_block (load propertyShare db_example))
     = last_checkpoint_hash (load propertyShare db_example) \<and>
   checkReorg chain_same propertyShare db_example = db_example \<and>
   fromBlock (load propertyShare (checkReorg chain_same propertyShare db_example)) = 12451"
proof -
  have h1: "getBlockHash chain_reorged 12400 = ''0xdef456''"
    by (simp add: chain_reorged_def)
  have h2: "getBlockHash chain_same 12400 = ''0xabc123''"
    by (simp add: chain_same_def chain_reorged_def)
  have c: "last_checkpoint_block cp_example = 12400"
    "last_checkpoint_hash cp_example = ''0xabc123''"
    "last_processed_block cp_example = 12450"
    by (simp_all add: cp_example_def)
  have b: "block_number ev_a = 12390" "block_number ev_b = 12420"
    by (simp_all add: ev_a_def ev_b_def purchase_def)
  show ?thesis
    using reorg_check [of chain_reorged propertyShare db_example]
          reorg_check [of chain_same propertyShare db_example]
    by (simp add: db_example_checkpoint db_example_events h1 h2 c b fromBlock_def)
qed

section \<open>The checkpoint order\<close>

lemma storeEvent_state: "indexer_state (storeEvent e d) = indexer_state d"
  by (simp add: storeEvent_def)

lemma updateProperties_state: "indexer_state (updateProperties e d) = indexer_state d"
  by (simp add: updateProperties_def split: option.splits)

lemma writePortfolio_state: "indexer_state (snd (writePortfolio e d)) = indexer_state d"
  by (auto simp add: writePortfolio_def createPortfolio_def insertPortfolio_def updatePortfolio_def Let_def
      split: option.splits)

lemma handler_state: "indexer_state (snd (handleSharesPurchased f e d)) = indexer_state d"
  by (simp add: handleSharesPurchased_def Let_def storeEvent_state updateProperties_state
      writePortfolio_state)

lemma processBatch_state: "indexer_state (snd (processBatch decode run d)) = indexer_state d"
proof (induction run arbitrary: d)
  case Nil
  show ?case by simp
next
  case (Cons x run)
  obtain f l where x: "x = (f, l)" by (cases x)
  show ?case
  proof (cases "decode l")
    case (Inl err)
    then show ?thesis
      using Cons.IH [of "d\<lparr>dead_letters := dead_letters d @ [(l, err)]\<rparr>"] x by simp
  next
    case (Inr e)
    obtain r d' where h: "handleSharesPurchased f e d = (r, d')"
      by (cases "handleSharesPurchased f e d")
    have s: "indexer_state d' = indexer_state d"
      using handler_state [of f e d] h by simp
    show ?thesis
      using Inr x h s Cons.IH [of d'] by (cases r) simp_all
  qed
qed

lemma load_cong: "indexer_state d' = indexer_state d \<Longrightarrow> load addr d' = load addr d"
  by (simp add: load_def)

lemma advance_strict:
  assumes "0 < checkpointInterval cfg" and "last_processed_block cp < toBlock"
    and "last_checkpoint_block cp \<le> last_processed_block cp + 1"
  shows "last_checkpoint_block (advanceCheckpoint cfg ch toBlock cp)
           \<le> last_processed_block (advanceCheckpoint cfg ch toBlock cp)"
proof -
  have "toBlock div checkpointInterval cfg * checkpointInterval cfg
          + toBlock mod checkpointInterval cfg = toBlock"
    by simp
  moreover have "0 \<le> toBlock mod checkpointInterval cfg"
    using assms(1) by simp
  ultimately have "(toBlock div checkpointInterval cfg) * checkpointInterval cfg \<le> toBlock"
    by linarith
  then show ?thesis
    using assms(2,3) by (simp add: advanceCheckpoint_def Let_def)
qed

lemma checkReorg_weak:
  assumes "last_checkpoint_block (load addr d) \<le> last_processed_block (load addr d) + 1"
  shows "last_checkpoint_block (load addr (checkReorg ch addr d))
           \<le> last_processed_block (load addr (checkReorg ch addr d)) + 1"
  using assms by (simp add: checkReorg_def rollback_def load_save Let_def)

lemma runCycle_snd:
  "snd (runCycle cfg ch decode flt addr d) =
     (let d1 = checkReorg ch addr d;
          cp = load addr d1;
          toBlock = computeToBlock cfg ch cp;
          res = processBatch decode (attachFaults flt (getLogs ch (fromBlock cp) toBlock)) d1
      in if \<not> available ch then d
         else if toBlock \<le> last_processed_block cp then d1
         else if fst res = None then save addr (advanceCheckpoint cfg ch toBlock cp) (snd res)
         else snd res)"
  unfolding runCycle_def Let_def
  by (simp split: prod.splits option.splits)

lemma runCycle_weak:
  assumes N: "0 < checkpointInterval cfg"
    and w: "last_checkpoint_block (load addr d) \<le> last_processed_block (load addr d) + 1"
  shows "last_checkpoint_block (load addr (snd (runCycle cfg ch decode flt addr d)))
           \<le> last_processed_block (load addr (snd (runCycle cfg ch decode flt addr d))) + 1"
proof -
  let ?d1 = "checkReorg ch addr d"
  let ?cp = "load addr ?d1"
  let ?to = "computeToBlock cfg ch ?cp"
  let ?res = "processBatch decode (attachFaults flt (getLogs ch (fromBlock ?cp) ?to)) ?d1"
  have w1: "last_checkpoint_block ?cp \<le> last_processed_block ?cp + 1"
    by (rule checkReorg_weak [OF w])
  have s: "load addr (snd ?res) = ?cp"
    by (rule load_cong) (rule processBatch_state)
  have a: "last_processed_block ?cp < ?to \<Longrightarrow>
      last_checkpoint_block (advanceCheckpoint cfg ch ?to ?cp)
        \<le> last_processed_block (advanceCheckpoint cfg ch ?to ?cp)"
    using advance_strict [OF N _ w1] by blast
  show ?thesis
  proof (cases "available ch")
    case False
    then show ?thesis using w by (simp add: runCycle_snd Let_def)
  next
    case True
    show ?thesis
    proof (cases "?to \<le> last_processed_block ?cp")
      case True
      then show ?thesis using w1 by (simp add: runCycle_snd Let_def \<open>available ch\<close>)
    next
      case False
      then have lt: "last_processed_block ?cp < ?to" by simp
      show ?thesis
      proof (cases "fst ?res = None")
        case ok: True
        have "snd (runCycle cfg ch decode flt addr d)
            = save addr (advanceCheckpoint cfg ch ?to ?cp) (snd ?res)"
          by (simp add: runCycle_snd Let_def \<open>available ch\<close> False ok)
        then show ?thesis using a [OF lt] by (simp add: load_save)
      next
        case nz: False
        have "snd (runCycle cfg ch decode flt addr d) = snd ?res"
          by (simp add: runCycle_snd Let_def \<open>available ch\<close> False nz)
        then show ?thesis using s w1 by simp
      qed
    qed
  qed
qed

lemma reachable_weak:
  assumes "0 < checkpointInterval cfg" and "reachable cfg decode addr d"
  shows "last_checkpoint_block (load addr d) \<le> last_processed_block (load addr d) + 1"
  using assms(2)
proof (induction rule: reachable.induct)
  case start
  show ?case by (simp add: load_def empty_db_def zero_checkpoint_def)
next
  case (cycle d ch flt)
  then show ?case using runCycle_weak [OF assms(1)] by blast
qed

text \<open>
  Claim C6, as stated, fails: the rollback sets \<open>last_processed_block\<close> to
  \<open>last_checkpoint_block - 1\<close> and leaves the checkpoint block where it is. In the notes'
  example the store goes from (12450, 12400) to (12399, 12400), and 12400 is not at most
  12399.
\<close>

theorem checkpoint_order_counterexample:
  "\<not> last_checkpoint_block (load propertyShare (checkReorg chain_reorged propertyShare db_example))
      \<le> last_processed_block (load propertyShare (checkReorg chain_reorged propertyShare db_example))"
  by (simp add: checkReorg_def reorgDetected_def rollback_def load_save Let_def
      db_example_checkpoint cp_example_def chain_reorged_def)

text \<open>
  Claim C6, amended. With a positive checkpoint interval: the zero-valued checkpoint has
  \<open>last_checkpoint_block \<le> last_processed_block\<close>; so has the checkpoint saved by a batch
  commit, whenever the batch ends above the last processed block and the checkpoint before
  it was at most one block ahead; a detected reorg leaves the checkpoint block unchanged
  and \<open>last_processed_block\<close> exactly one block below it; and in every store the indexer
  can reach, \<open>last_checkpoint_block \<le> last_processed_block + 1\<close>.
\<close>

theorem checkpoint_order:
  assumes "0 < checkpointInterval cfg"
  shows
    "last_checkpoint_block zero_checkpoint \<le> last_processed_block zero_checkpoint \<and>
     (last_processed_block cp < toBlock \<and>
      last_checkpoint_block cp \<le> last_processed_block cp + 1 \<longrightarrow>
        last_checkpoint_block (advanceCheckpoint cfg ch toBlock cp)
          \<le> last_processed_block (advanceCheckpoint cfg ch toBlock cp)) \<and>
     (reorgDetected ch' (load addr d') \<longrightarrow>
        last_checkpoint_block (load addr (checkReorg ch' addr d'))
          = last_checkpoint_block (load addr d') \<and>
        last_processed_block (load addr (checkReorg ch' addr d'))
          = last_checkpoint_block (load addr d') - 1) \<and>
     (reachable cfg decode addr d \<longrightarrow>
        last_checkpoint_block (load addr d) \<le> last_processed_block (load addr d) + 1)"
proof -
  have z: "last_checkpoint_block zero_checkpoint \<le> last_processed_block zero_checkpoint"
    by (simp add: zero_checkpoint_def)
  have r: "reorgDetected ch' (load addr d') \<longrightarrow>
        last_checkpoint_block (load addr (checkReorg ch' addr d'))
          = last_checkpoint_block (load addr d') \<and>
        last_processed_block (load addr (checkReorg ch' addr d'))
          = last_checkpoint_block (load addr d') - 1"
    by (simp add: checkReorg_def rollback_def load_save Let_def)
  show ?thesis
    using z r advance_strict [OF assms, of cp toBlock ch] reachable_weak [OF assms, of decode addr d]
    by blast
qed

theorem checkpoint_order_witness:
  "0 < checkpointInterval cfg0 \<and>
   last_processed_block cp_rolled < 12450 \<and>
   last_checkpoint_block cp_rolled \<le> last_processed_block cp_rolled + 1 \<and>
   last_checkpoint_block (advanceCheckpoint cfg0 chain_reorged 12450 cp_rolled)
     \<le> last_processed_block (advanceCheckpoint cfg0 chain_reorged 12450 cp_rolled) \<and>
   reorgDetected chain_reorged (load propertyShare db_example) \<and>
   last_processed_block (load propertyShare (checkReorg chain_reorged propertyShare db_example))
     = 12399 \<and>
   reachable cfg0 decode0 propertyShare empty_db \<and>
   last_checkpoint_block (load propertyShare empty_db)
     \<le> last_processed_block (load propertyShare empty_db) + 1"
proof -
  have N: "0 < checkpointInterval cfg0"
    by (simp add: cfg0_def)
  have c: "last_processed_block cp_rolled < 12450"
    "last_checkpoint_block cp_rolled \<le> last_processed_block cp_rolled + 1"
    by (simp_all add: cp_rolled_def cp_example_def)
  have g: "reorgDetected chain_reorged (load propertyShare db_example)"
    by (simp add: reorgDetected_def db_example_checkpoint cp_example_def chain_reorged_def)
  have s: "reachable cfg0 decode0 propertyShare empty_db"
    by (rule reachable.start)
  have l: "last_checkpoint_block (load propertyShare db_example) = 12400"
    by (simp add: db_example_checkpoint cp_example_def)
  show ?thesis
    using checkpoint_order [OF N, of cp_rolled 12450 chain_reorged chain_reorged propertyShare
        db_example decode0 empty_db] N c g s l
    by simp
qed

section \<open>Duplicate deliveries\<close>

lemma storeEvent_key: "event_key e \<in> set (event_keys (storeEvent e d))"
  by (simp add: storeEvent_def event_keys_def)

lemma storeEvent_dup: "event_key e \<in> set (event_keys d) \<Longrightarrow> storeEvent e d = d"
  by (simp add: storeEvent_def)

lemma storeEvent_idem: "storeEvent e (storeEvent e d) = storeEvent e d"
  by (rule storeEvent_dup) (rule storeEvent_key)

lemma storeEvent_keys_mono: "set (event_keys d) \<subseteq> set (event_keys (storeEvent e d))"
  by (auto simp add: storeEvent_def event_keys_def)

lemma storeEvent_derived: "derived (storeEvent e d) = derived d"
  by (simp add: storeEvent_def derived_def)

lemma updateProperties_events: "blockchain_events (updateProperties e d) = blockchain_events d"
  by (simp add: updateProperties_def split: option.splits)

lemma writePortfolio_events: "blockchain_events (snd (writePortfolio e d)) = blockchain_events d"
  by (auto simp add: writePortfolio_def createPortfolio_def insertPortfolio_def updatePortfolio_def Let_def
      split: option.splits)

lemma replayEvent_events: "blockchain_events (replayEvent e d) = blockchain_events d"
  by (simp add: replayEvent_def writePortfolio_events updateProperties_events)

lemma writePortfolio_eq: "writePortfolio e d = (None, snd (writePortfolio e d))"
  using writePortfolio_ok [of e d] by (cases "writePortfolio e d") simp

text \<open>A run of the handler without a failing write: the raw insert, then the derived writes.\<close>

lemma handler_NoFault: "handleSharesPurchased NoFault e d = (None, replayEvent e (storeEvent e d))"
  using writePortfolio_eq [of e "updateProperties e (storeEvent e d)"]
  by (simp add: handleSharesPurchased_def Let_def replayEvent_def)

lemma handler_UpdatePropertiesFails:
  "handleSharesPurchased UpdatePropertiesFails e d = (Some NetworkError, storeEvent e d)"
  by (simp add: handleSharesPurchased_def Let_def)

lemma handler_events_dup:
  assumes "event_key e \<in> set (event_keys d)"
  shows "blockchain_events (snd (handleSharesPurchased f e d)) = blockchain_events d"
  using writePortfolio_events [of e "updateProperties e d"]
  by (simp add: handleSharesPurchased_def Let_def storeEvent_dup [OF assms]
      updateProperties_events)

lemma applyEvents_single: "applyEvents [(f, e)] d = handleSharesPurchased f e d"
  by (cases "handleSharesPurchased f e d") (auto split: option.splits)

lemma db_once_value:
  "db_once =
     \<lparr>blockchain_events = [ev_a],
      properties = [1 \<mapsto> \<lparr>total_shares = 100, available_shares = 90\<rparr>],
      user_portfolio = [(alice, 1) \<mapsto> \<lparr>shares_owned = 10, last_updated = 1239000\<rparr>],
      indexer_state = Map.empty, dead_letters = []\<rparr>"
  by (simp add: db_once_def applyEvents_single handler_NoFault replayEvent_def
      writePortfolio_def getPortfolio_def createPortfolio_def insertPortfolio_def updatePortfolio_def
      updateProperties_def storeEvent_def event_keys_def db1_def empty_db_def ev_a_def
      purchase_def Let_def alice_lower)

lemma db_twice_value:
  "db_twice =
     \<lparr>blockchain_events = [ev_a],
      properties = [1 \<mapsto> \<lparr>total_shares = 100, available_shares = 80\<rparr>],
      user_portfolio = [(alice, 1) \<mapsto> \<lparr>shares_owned = 20, last_updated = 1239000\<rparr>],
      indexer_state = Map.empty, dead_letters = []\<rparr>"
  by (simp add: db_twice_def db_once_value applyEvents_single handler_NoFault replayEvent_def
      writePortfolio_def getPortfolio_def createPortfolio_def insertPortfolio_def updatePortfolio_def
      updateProperties_def storeEvent_def event_keys_def event_key_def ev_a_def
      purchase_def Let_def alice_lower)

lemma db_twice_differs: "derived db_twice \<noteq> derived db_once"
proof -
  have "properties db_twice 1 \<noteq> properties db_once 1"
    by (simp add: db_once_value db_twice_value)
  then show ?thesis
    by (auto simp add: derived_def)
qed

text \<open>
  Claim C3 against the handler of the notes. \<open>ev_a\<close>, a purchase of 10 shares, is already
  stored in \<open>db_once\<close> and its derived mutations are applied there (90 available shares).
  Its second delivery meets the unique constraint, the insert is skipped without an error
  and the raw event log stays as it is; but the handler does not stop there, it applies
  steps 2 and 3 again: \<open>available_shares\<close> goes to 80 and the derived state is no longer
  the one before the redelivery.
\<close>

theorem duplicate_delivery_reapplies:
  "event_key ev_a \<in> set (event_keys db_once) \<and>
   fst (handleSharesPurchased NoFault ev_a db_once) = None \<and>
   blockchain_events (snd (handleSharesPurchased NoFault ev_a db_once)) = blockchain_events db_once \<and>
   properties db_once 1 = Some \<lparr>total_shares = 100, available_shares = 90\<rparr> \<and>
   properties (snd (handleSharesPurchased NoFault ev_a db_once)) 1
     = Some \<lparr>total_shares = 100, available_shares = 80\<rparr> \<and>
   derived (snd (handleSharesPurchased NoFault ev_a db_once)) \<noteq> derived db_once"
proof -
  have e: "snd (handleSharesPurchased NoFault ev_a db_once) = db_twice"
    by (simp only: db_twice_def applyEvents_single)
  have k: "event_key ev_a \<in> set (event_keys db_once)"
    by (simp add: db_once_value event_keys_def)
  have f: "fst (handleSharesPurchased NoFault ev_a db_once) = None"
    by (simp add: handler_NoFault)
  have l: "blockchain_events db_twice = blockchain_events db_once"
    by (simp add: db_once_value db_twice_value)
  have p: "properties db_once 1 = Some \<lparr>total_shares = 100, available_shares = 90\<rparr>"
    "properties db_twice 1 = Some \<lparr>total_shares = 100, available_shares = 80\<rparr>"
    by (simp_all add: db_once_value db_twice_value)
  show ?thesis
    using db_twice_differs k f l p by (simp only: e simp_thms)
qed

section \<open>Idempotence\<close>

text \<open>
  The recovery of the notes' Scenario 2, run through the driver: a cycle over two logs in
  which the first log is handled and the second fails in \<open>updateProperties\<close>, then the
  retry of the same range without a failure.
\<close>

lemma retry_values:
  "fst (runCycle cfg0 chain_two decode0 fails_second propertyShare db_start) = Some NetworkError \<and>
   fst (runCycle cfg0 chain_two decode0 no_fault propertyShare db_failed) = None \<and>
   properties db_failed 1 = Some \<lparr>total_shares = 100, available_shares = 98\<rparr> \<and>
   properties db_retried 1 = Some \<lparr>total_shares = 100, available_shares = 93\<rparr> \<and>
   user_portfolio db_failed (alice, 1) = Some \<lparr>shares_owned = 2, last_updated = 1245100\<rparr> \<and>
   user_portfolio db_retried (alice, 1) = Some \<lparr>shares_owned = 7, last_updated = 1245200\<rparr> \<and>
   map amount (blockchain_events db_retried) = [2, 3]"
  by code_simp

text \<open>
  Claim C5 against the handler of the notes. The batch \<open>[ev_a]\<close>, a purchase of 10 shares,
  is applied to a store with 100 available shares, and then applied again. The raw event
  log holds the event once, but the second pass runs steps 2 and 3 again:
  \<open>available_shares\<close> goes from 90 to 80 and the portfolio from 10 shares to 20, so the
  derived state after two passes is not the derived state after one. The driver reaches
  the same: after a cycle that handled a purchase of 2 shares and failed on a purchase of
  3, the retry of the range leaves 93 available shares and 7 shares in the portfolio,
  where the raw event log holds purchases of 2 and 3 shares.
\<close>

theorem redelivery_applies_twice:
  "properties db_once 1 = Some \<lparr>total_shares = 100, available_shares = 90\<rparr> \<and>
   properties db_twice 1 = Some \<lparr>total_shares = 100, available_shares = 80\<rparr> \<and>
   user_portfolio db_once (alice, 1) = Some \<lparr>shares_owned = 10, last_updated = 1239000\<rparr> \<and>
   user_portfolio db_twice (alice, 1) = Some \<lparr>shares_owned = 20, last_updated = 1239000\<rparr> \<and>
   blockchain_events db_twice = blockchain_events db_once \<and>
   derived db_twice \<noteq> derived db_once \<and>
   fst (runCycle cfg0 chain_two decode0 fails_second propertyShare db_start) = Some NetworkError \<and>
   fst (runCycle cfg0 chain_two decode0 no_fault propertyShare db_failed) = None \<and>
   map amount (blockchain_events db_retried) = [2, 3] \<and>
   properties db_retried 1 = Some \<lparr>total_shares = 100, available_shares = 93\<rparr> \<and>
   user_portfolio db_retried (alice, 1) = Some \<lparr>shares_owned = 7, last_updated = 1245200\<rparr>"
proof -
  have once: "properties db_once 1 = Some \<lparr>total_shares = 100, available_shares = 90\<rparr>"
    "user_portfolio db_once (alice, 1) = Some \<lparr>shares_owned = 10, last_updated = 1239000\<rparr>"
    by (simp_all add: db_once_value)
  have twice: "properties db_twice 1 = Some \<lparr>total_shares = 100, available_shares = 80\<rparr>"
    "user_portfolio db_twice (alice, 1) = Some \<lparr>shares_owned = 20, last_updated = 1239000\<rparr>"
    by (simp_all add: db_twice_value)
  have log: "blockchain_events db_twice = blockchain_events db_once"
    by (simp add: db_once_value db_twice_value)
  show ?thesis
    using once twice log db_twice_differs retry_values by blast
qed

section \<open>A failing write in a batch\<close>

lemma applyEvents_NoFault:
  "fst (applyEvents (map (Pair NoFault) pre) d) = None"
proof (induction pre arbitrary: d)
  case Nil
  show ?case by simp
next
  case (Cons e pre)
  show ?case using Cons.IH by (simp add: handler_NoFault)
qed

lemma applyEvents_append:
  "fst (applyEvents xs d) = None \<Longrightarrow>
   applyEvents (xs @ ys) d = applyEvents ys (snd (applyEvents xs d))"
proof (induction xs arbitrary: d)
  case Nil
  show ?case by simp
next
  case (Cons x xs)
  obtain f e where x: "x = (f, e)" by (cases x)
  obtain r d' where h: "handleSharesPurchased f e d = (r, d')"
    by (cases "handleSharesPurchased f e d")
  show ?case
  proof (cases r)
    case None
    then show ?thesis using Cons x h by simp
  next
    case (Some err)
    then show ?thesis using Cons.prems x h by simp
  qed
qed

lemma runCycle_failed:
  assumes "available ch" and "fst (runCycle cfg ch decode flt addr d) \<noteq> None"
  shows "indexer_state (snd (runCycle cfg ch decode flt addr d)) = indexer_state (checkReorg ch addr d)"
proof -
  let ?d1 = "checkReorg ch addr d"
  let ?cp = "load addr ?d1"
  let ?to = "computeToBlock cfg ch ?cp"
  let ?res = "processBatch decode (attachFaults flt (getLogs ch (fromBlock ?cp) ?to)) ?d1"
  have a: "\<not> ?to \<le> last_processed_block ?cp"
    using assms by (auto simp add: runCycle_def Let_def)
  have b: "fst ?res \<noteq> None"
    using assms a by (auto simp add: runCycle_def Let_def split: prod.splits option.splits)
  have "snd (runCycle cfg ch decode flt addr d) = snd ?res"
    by (simp add: runCycle_snd Let_def assms(1) a b)
  then show ?thesis
    by (simp add: processBatch_state)
qed

lemma handler_PortfolioWriteFails:
  "handleSharesPurchased PortfolioWriteFails e d
     = (Some NetworkError, updateProperties e (storeEvent e d))"
  by (simp add: handleSharesPurchased_def Let_def)

lemma handler_fails: "f \<noteq> NoFault \<Longrightarrow> fst (handleSharesPurchased f e d) \<noteq> None"
  by (cases f) (simp_all add: handleSharesPurchased_def Let_def)

lemma applyEvents_fails_here:
  assumes "f \<noteq> NoFault"
  shows "applyEvents ((f, e) # post) d = handleSharesPurchased f e d"
proof -
  obtain r d' where h: "handleSharesPurchased f e d = (r, d')"
    by (cases "handleSharesPurchased f e d")
  then have "r \<noteq> None"
    using handler_fails [OF assms, of e d] by simp
  then obtain err where "r = Some err"
    by auto
  then show ?thesis
    using h by simp
qed

text \<open>
  Claim C2, amended. There is no transaction around a batch. When the raw insert of an
  event succeeds and a later write of its handler throws, the handler ends with the error
  and every write completed before the failing one stays: the raw event in both cases,
  with no row of the application tables changed when \<open>updateProperties\<close> throws, and with
  the \<open>properties\<close> update in place and the portfolio untouched when the portfolio write
  throws. The writes of the events handled before it in the batch persist and the events
  after it are not handled; and a run that ends with an error leaves the checkpoint as
  the reorg check left it, so the checkpoint does not advance.
\<close>

theorem failed_batch:
  "handleSharesPurchased UpdatePropertiesFails e d = (Some NetworkError, storeEvent e d) \<and>
   handleSharesPurchased PortfolioWriteFails e d
     = (Some NetworkError, updateProperties e (storeEvent e d)) \<and>
   event_key e \<in> set (event_keys (storeEvent e d)) \<and>
   event_key e \<in> set (event_keys (updateProperties e (storeEvent e d))) \<and>
   derived (storeEvent e d) = derived d \<and>
   user_portfolio (updateProperties e (storeEvent e d)) = user_portfolio d \<and>
   (f \<noteq> NoFault \<longrightarrow>
      applyEvents (map (Pair NoFault) pre @ (f, e) # post) d
        = handleSharesPurchased f e (snd (applyEvents (map (Pair NoFault) pre) d))) \<and>
   (available ch \<and> fst (runCycle cfg ch decode flt addr d') \<noteq> None \<longrightarrow>
      indexer_state (snd (runCycle cfg ch decode flt addr d')) = indexer_state (checkReorg ch addr d'))"
proof -
  have k: "event_key e \<in> set (event_keys (updateProperties e (storeEvent e d)))"
    using storeEvent_key [of e d] by (simp add: event_keys_def updateProperties_events)
  have u: "user_portfolio (updateProperties e (storeEvent e d)) = user_portfolio d"
    by (simp add: updateProperties_def storeEvent_def split: option.splits)
  have b: "f \<noteq> NoFault \<longrightarrow>
      applyEvents (map (Pair NoFault) pre @ (f, e) # post) d
        = handleSharesPurchased f e (snd (applyEvents (map (Pair NoFault) pre) d))"
    by (simp add: applyEvents_append [OF applyEvents_NoFault] applyEvents_fails_here
        del: applyEvents.simps)
  show ?thesis
    using k u b runCycle_failed [of ch cfg decode flt addr d']
    by (simp add: handler_UpdatePropertiesFails handler_PortfolioWriteFails storeEvent_key
        storeEvent_derived del: applyEvents.simps)
qed

lemma db_start_checkpoint: "load propertyShare db_start = cp_example"
  by (simp add: db_start_def load_save)

lemma db_start_noreorg: "checkReorg chain_one propertyShare db_start = db_start"
  by (simp add: checkReorg_def reorgDetected_def db_start_checkpoint cp_example_def
      chain_one_def chain_same_def chain_reorged_def Let_def)

lemma toBlock_one: "computeToBlock cfg0 chain_one cp_example = 12457"
  by (simp add: computeToBlock_def cfg0_def chain_one_def chain_same_def chain_reorged_def
      cp_example_def)

lemma decode_first: "decode0 (mkLog 12451 ''0xt1'' ''aa'') = Inr (purchase 12451 ''0xt1'' 0 alice 2 1245100)"
  by (simp add: decode0_def mkLog_def)

lemma cycle_one:
  "runCycle cfg0 chain_one decode0 fails_first propertyShare db_start
     = (Some NetworkError, storeEvent (purchase 12451 ''0xt1'' 0 alice 2 1245100) db_start)"
proof -
  have l: "getLogs chain_one a b = [mkLog 12451 ''0xt1'' ''aa'']" for a b
    by (simp add: chain_one_def)
  have av: "available chain_one"
    by (simp add: chain_one_def chain_same_def chain_reorged_def)
  have f: "attachFaults fails_first [mkLog 12451 ''0xt1'' ''aa'']
             = [(UpdatePropertiesFails, mkLog 12451 ''0xt1'' ''aa'')]"
    by (simp add: attachFaults_def fails_first_def)
  have lp: "last_processed_block cp_example = 12450"
    by (simp add: cp_example_def)
  show ?thesis
    by (simp add: runCycle_def Let_def av db_start_noreorg db_start_checkpoint toBlock_one l f
        lp decode_first handler_UpdatePropertiesFails)
qed

text \<open>
  Claim C2, as stated, fails on the handler of the notes (Scenario 2). \<open>ev_a\<close> is handled
  on a store without raw events and with 100 available shares. When \<open>updateProperties\<close>
  throws, the store after the failed batch holds the raw event and is not the store
  before it; when the portfolio write throws, the 10 shares are taken from
  \<open>available_shares\<close> as well.
\<close>

theorem failed_batch_counterexample:
  "fst (applyEvents [(UpdatePropertiesFails, ev_a)] db1) = Some NetworkError \<and>
   blockchain_events db1 = [] \<and>
   blockchain_events (snd (applyEvents [(UpdatePropertiesFails, ev_a)] db1)) = [ev_a] \<and>
   snd (applyEvents [(UpdatePropertiesFails, ev_a)] db1) \<noteq> db1 \<and>
   fst (applyEvents [(PortfolioWriteFails, ev_a)] db1) = Some NetworkError \<and>
   properties db1 1 = Some \<lparr>total_shares = 100, available_shares = 100\<rparr> \<and>
   properties (snd (applyEvents [(PortfolioWriteFails, ev_a)] db1)) 1
     = Some \<lparr>total_shares = 100, available_shares = 90\<rparr>"
proof -
  have b: "blockchain_events db1 = []"
    by (simp add: db1_def empty_db_def)
  have s: "blockchain_events (storeEvent ev_a db1) = [ev_a]"
    by (simp add: storeEvent_def event_keys_def b)
  have "blockchain_events (storeEvent ev_a db1) \<noteq> blockchain_events db1"
    by (simp only: s b) simp
  then have n: "storeEvent ev_a db1 \<noteq> db1"
    by auto
  have p: "properties db1 1 = Some \<lparr>total_shares = 100, available_shares = 100\<rparr>"
    by (simp add: db1_def empty_db_def)
  have t: "tokenId ev_a = 1" "amount ev_a = 10"
    by (simp_all add: ev_a_def purchase_def)
  have q: "properties (updateProperties ev_a (storeEvent ev_a db1)) 1
      = Some \<lparr>total_shares = 100, available_shares = 90\<rparr>"
    using p by (simp add: updateProperties_def storeEvent_def t)
  show ?thesis
    using n b s p q
    by (simp only: applyEvents_single handler_UpdatePropertiesFails
        handler_PortfolioWriteFails fst_conv snd_conv simp_thms)
qed

theorem failed_batch_witness:
  "PortfolioWriteFails \<noteq> NoFault \<and>
   applyEvents (map (Pair NoFault) [ev_a] @ (PortfolioWriteFails, ev_b) # [(NoFault, ev_a)]) db1
     = (Some NetworkError, updateProperties ev_b (storeEvent ev_b db_once)) \<and>
   available chain_one \<and>
   fst (runCycle cfg0 chain_one decode0 fails_first propertyShare db_start) \<noteq> None \<and>
   load propertyShare (snd (runCycle cfg0 chain_one decode0 fails_first propertyShare db_start))
     = cp_example"
proof -
  have av: "available chain_one"
    by (simp add: chain_one_def chain_same_def chain_reorged_def)
  have f: "fst (runCycle cfg0 chain_one decode0 fails_first propertyShare db_start) \<noteq> None"
    by (simp add: cycle_one)
  have o: "snd (applyEvents (map (Pair NoFault) [ev_a]) db1) = db_once"
    by (simp add: db_once_def)
  have nf: "PortfolioWriteFails \<noteq> NoFault"
    by simp
  note t = failed_batch [of ev_b db1 PortfolioWriteFails "[ev_a]" "[(NoFault, ev_a)]"
      chain_one cfg0 decode0 fails_first propertyShare db_start]
  have "indexer_state (snd (runCycle cfg0 chain_one decode0 fails_first propertyShare db_start))
          = indexer_state db_start"
    using t av f by (simp only: db_start_noreorg simp_thms)
  then have c: "load propertyShare (snd (runCycle cfg0 chain_one decode0 fails_first propertyShare db_start))
      = cp_example"
    by (simp add: load_def db_start_checkpoint [unfolded load_def])
  have a: "applyEvents (map (Pair NoFault) [ev_a] @ (PortfolioWriteFails, ev_b) # [(NoFault, ev_a)]) db1
     = (Some NetworkError, updateProperties ev_b (storeEvent ev_b db_once))"
    using t nf by (simp only: o handler_PortfolioWriteFails simp_thms)
  show ?thesis
    using nf a av f c by (simp only: simp_thms)
qed

section \<open>Recorded before applied\<close>

lemma handler_writes: "snd (handleSharesPurchased f e d) = fold execWrite (handlerWrites f e) d"
  by (cases f) (simp_all add: handleSharesPurchased_def Let_def)

lemma handler_fst: "fst (handleSharesPurchased f e d) = None \<longleftrightarrow> f = NoFault"
  by (cases f) (simp_all add: handleSharesPurchased_def Let_def writePortfolio_ok)

lemma applyEvents_writes: "snd (applyEvents run d) = fold execWrite (batchWrites run) d"
proof (induction run arbitrary: d)
  case Nil
  show ?case by simp
next
  case (Cons x run)
  obtain f e where x: "x = (f, e)" by (cases x)
  obtain r d' where h: "handleSharesPurchased f e d = (r, d')"
    by (cases "handleSharesPurchased f e d")
  have d': "d' = fold execWrite (handlerWrites f e) d"
    using handler_writes [of f e d] h by simp
  have r: "r = None \<longleftrightarrow> f = NoFault"
    using handler_fst [of f e d] h by simp
  show ?case
  proof (cases "f = NoFault")
    case True
    then have "r = None" using r by simp
    then show ?thesis using x h True d' Cons.IH [of d'] by simp
  next
    case False
    then obtain err where "r = Some err" using r by (cases r) auto
    then show ?thesis using x h False d' by simp
  qed
qed

lemma execWrite_keys: "set (event_keys d) \<subseteq> set (event_keys (execWrite w d))"
proof (cases w)
  case (StoreEvent e)
  then show ?thesis using storeEvent_keys_mono by simp
next
  case (UpdateProperties e)
  then show ?thesis by (simp add: event_keys_def updateProperties_events)
next
  case (WritePortfolio e)
  then show ?thesis by (simp add: event_keys_def writePortfolio_events)
qed

lemma fold_execWrite_keys: "set (event_keys d) \<subseteq> set (event_keys (fold execWrite ws d))"
proof (induction ws arbitrary: d)
  case Nil
  show ?case by simp
next
  case (Cons w ws)
  show ?case using execWrite_keys [of d w] Cons.IH [of "execWrite w d"] by auto
qed

lemma storedFirst_mono:
  "storedFirst seen ws \<Longrightarrow> set seen \<subseteq> set seen' \<Longrightarrow> storedFirst seen' ws"
proof (induction seen ws arbitrary: seen' rule: storedFirst.induct)
  case (1 seen)
  show ?case by simp
next
  case (2 seen e ws)
  then show ?case by (simp add: subset_insertI2)
next
  case (3 seen e ws)
  then show ?case by auto
next
  case (4 seen e ws)
  then show ?case by auto
qed

lemma storedFirst_batch: "storedFirst seen (batchWrites run)"
proof (induction run arbitrary: seen)
  case Nil
  show ?case by simp
next
  case (Cons x run)
  obtain f e where x: "x = (f, e)" by (cases x)
  show ?case using x Cons.IH [of "e # seen"] by (cases f) simp_all
qed

lemma storedFirst_take: "storedFirst seen ws \<Longrightarrow> storedFirst seen (take k ws)"
proof (induction seen ws arbitrary: k rule: storedFirst.induct)
  case (1 seen)
  show ?case by simp
next
  case (2 seen e ws)
  then show ?case by (cases k) simp_all
next
  case (3 seen e ws)
  then show ?case by (cases k) simp_all
next
  case (4 seen e ws)
  then show ?case by (cases k) simp_all
qed

lemma storedFirst_recorded:
  assumes "storedFirst seen ws"
    and "\<forall>x \<in> set seen. event_key x \<in> set (event_keys d)"
    and "w \<in> set ws" and "derivedWriteOf w = Some e"
  shows "event_key e \<in> set (event_keys (fold execWrite ws d))"
  using assms
proof (induction seen ws arbitrary: d rule: storedFirst.induct)
  case (1 seen)
  then show ?case by simp
next
  case (2 seen x ws)
  have "\<forall>y \<in> set (x # seen). event_key y \<in> set (event_keys (storeEvent x d))"
    using "2.prems"(2) storeEvent_key [of x d] storeEvent_keys_mono [of d x] by auto
  moreover have "w \<in> set ws" using "2.prems"(3,4) by auto
  ultimately show ?case using "2.IH" [of "storeEvent x d"] "2.prems"(1,4) by simp
next
  case (3 seen x ws)
  have s: "\<forall>y \<in> set seen. event_key y \<in> set (event_keys (updateProperties x d))"
    using "3.prems"(2) by (simp add: event_keys_def updateProperties_events)
  show ?case
  proof (cases "w = UpdateProperties x")
    case True
    then have "e = x" using "3.prems"(4) by simp
    then have "event_key e \<in> set (event_keys (updateProperties x d))"
      using s "3.prems"(1) by simp
    then show ?thesis using fold_execWrite_keys [of "updateProperties x d" ws] by auto
  next
    case False
    then have "w \<in> set ws" using "3.prems"(3) by simp
    then show ?thesis using "3.IH" [of "updateProperties x d"] "3.prems"(1,4) s by simp
  qed
next
  case (4 seen x ws)
  have s: "\<forall>y \<in> set seen. event_key y \<in> set (event_keys (snd (writePortfolio x d)))"
    using "4.prems"(2) by (simp add: event_keys_def writePortfolio_events)
  show ?case
  proof (cases "w = WritePortfolio x")
    case True
    then have "e = x" using "4.prems"(4) by simp
    then have "event_key e \<in> set (event_keys (snd (writePortfolio x d)))"
      using s "4.prems"(1) by simp
    then show ?thesis using fold_execWrite_keys [of "snd (writePortfolio x d)" ws] by auto
  next
    case False
    then have "w \<in> set ws" using "4.prems"(3) by simp
    then show ?thesis using "4.IH" [of "snd (writePortfolio x d)"] "4.prems"(1,4) s by simp
  qed
qed

lemma storedFirst_append:
  "storedFirst seen xs \<Longrightarrow> (\<And>s. storedFirst s ys) \<Longrightarrow> storedFirst seen (xs @ ys)"
proof (induction seen xs rule: storedFirst.induct)
  case (1 seen)
  then show ?case by simp
next
  case (2 seen e ws)
  then show ?case by simp
next
  case (3 seen e ws)
  then show ?case by simp
next
  case (4 seen e ws)
  then show ?case by simp
qed

lemma storedFirst_runs: "storedFirst seen (concat (map batchWrites runs))"
proof (induction runs arbitrary: seen)
  case Nil
  show ?case by simp
next
  case (Cons run runs)
  have "storedFirst seen (batchWrites run @ concat (map batchWrites runs))"
    by (rule storedFirst_append) (rule storedFirst_batch, rule Cons.IH)
  then show ?case by simp
qed

lemma runs_writes:
  "fold (\<lambda>run s. snd (applyEvents run s)) runs d
     = fold execWrite (concat (map batchWrites runs)) d"
proof (induction runs arbitrary: d)
  case Nil
  show ?case by simp
next
  case (Cons run runs)
  show ?case
    using Cons.IH [of "snd (applyEvents run d)"] by (simp add: applyEvents_writes)
qed

text \<open>
  What the order of the handler gives, between rollbacks. The store after any sequence of
  batch runs, failed ones and retries among them, is the store after the writes the runs
  completed, in order; and at every point of that sequence of writes (after the first \<open>k\<close>
  of them, which is where a crash leaves the store), every event of which one of these
  writes is a derived write has its key in the raw event log.
\<close>

lemma recorded_before_applied:
  "fold (\<lambda>run s. snd (applyEvents run s)) runs d
     = fold execWrite (concat (map batchWrites runs)) d \<and>
   (w \<in> set (take k (concat (map batchWrites runs))) \<and> derivedWriteOf w = Some e \<longrightarrow>
      event_key e \<in> set (event_keys (fold execWrite (take k (concat (map batchWrites runs))) d)))"
proof -
  have "storedFirst [] (take k (concat (map batchWrites runs)))"
    by (rule storedFirst_take) (rule storedFirst_runs)
  then show ?thesis
    using storedFirst_recorded [of "[]" "take k (concat (map batchWrites runs))" d w e]
    by (simp add: runs_writes)
qed

lemma rollback_values:
  "properties db1 1 = Some \<lparr>total_shares = 100, available_shares = 100\<rparr> \<and>
   properties db_example1 1 = Some \<lparr>total_shares = 100, available_shares = 85\<rparr> \<and>
   blockchain_events db_example1 = [ev_a, ev_b] \<and>
   blockchain_events db_rolled = [ev_a] \<and>
   properties db_rolled 1 = Some \<lparr>total_shares = 100, available_shares = 85\<rparr> \<and>
   event_key ev_b \<notin> set (event_keys db_rolled)"
  by code_simp

lemma rollback_cycle_values:
  "properties db_start 1 = Some \<lparr>total_shares = 100, available_shares = 100\<rparr> \<and>
   fst (runCycle cfg0 chain_two decode0 no_fault propertyShare db_start) = None \<and>
   map amount (blockchain_events db_cycle1) = [2, 3] \<and>
   properties db_cycle1 1 = Some \<lparr>total_shares = 100, available_shares = 95\<rparr> \<and>
   fst (runCycle cfg0 chain_reorged decode0 no_fault propertyShare db_cycle1) = None \<and>
   blockchain_events db_cycle2 = [] \<and>
   properties db_cycle2 1 = Some \<lparr>total_shares = 100, available_shares = 95\<rparr>"
  by code_simp

text \<open>
  Claim C9 against the rollback of the notes. The two purchases of the reorg example, 10
  and 5 shares, are handled on a store with 100 available shares, so the \<open>properties\<close>
  update of \<open>ev_b\<close> is among the writes applied and 85 shares are left. The reorg check
  then meets the new hash at block 12400: the rollback deletes the raw row of \<open>ev_b\<close>
  (block 12420) and leaves \<open>available_shares\<close> at 85. The derived mutation of \<open>ev_b\<close> is
  applied and its raw event is not in the log. The driver reaches the same in two runs
  that both end without an error: after purchases of 2 and 3 shares are handled and the
  next run rolls back, the raw event log is empty and 95 shares are available.
\<close>

theorem rollback_leaves_applied_unrecorded:
  "UpdateProperties ev_b \<in> set (batchWrites [(NoFault, ev_a), (NoFault, ev_b)]) \<and>
   derivedWriteOf (UpdateProperties ev_b) = Some ev_b \<and>
   snd (applyEvents [(NoFault, ev_a), (NoFault, ev_b)] db1)
     = fold execWrite (batchWrites [(NoFault, ev_a), (NoFault, ev_b)]) db1 \<and>
   properties db1 1 = Some \<lparr>total_shares = 100, available_shares = 100\<rparr> \<and>
   properties db_example1 1 = Some \<lparr>total_shares = 100, available_shares = 85\<rparr> \<and>
   properties db_rolled 1 = Some \<lparr>total_shares = 100, available_shares = 85\<rparr> \<and>
   blockchain_events db_rolled = [ev_a] \<and>
   event_key ev_b \<notin> set (event_keys db_rolled) \<and>
   fst (runCycle cfg0 chain_two decode0 no_fault propertyShare db_start) = None \<and>
   fst (runCycle cfg0 chain_reorged decode0 no_fault propertyShare db_cycle1) = None \<and>
   map amount (blockchain_events db_cycle1) = [2, 3] \<and>
   properties db_cycle1 1 = Some \<lparr>total_shares = 100, available_shares = 95\<rparr> \<and>
   blockchain_events db_cycle2 = [] \<and>
   properties db_cycle2 1 = Some \<lparr>total_shares = 100, available_shares = 95\<rparr>"
proof -
  have m: "UpdateProperties ev_b \<in> set (batchWrites [(NoFault, ev_a), (NoFault, ev_b)])"
    by simp
  have v: "derivedWriteOf (UpdateProperties ev_b) = Some ev_b"
    by simp
  have t: "snd (applyEvents [(NoFault, ev_a), (NoFault, ev_b)] db1)
     = fold execWrite (batchWrites [(NoFault, ev_a), (NoFault, ev_b)]) db1"
    by (rule applyEvents_writes)
  show ?thesis
    using m v t rollback_values rollback_cycle_values by (simp only: simp_thms)
qed

section \<open>The derived writes of an event\<close>

lemma storeEvent_portfolio: "user_portfolio (storeEvent e d) = user_portfolio d"
  by (simp add: storeEvent_def)

lemma updateProperties_portfolio: "user_portfolio (updateProperties e d) = user_portfolio d"
  by (simp add: updateProperties_def split: option.splits)




lemma replay_properties:
  "properties (replayEvent e d) =
     (case properties d (tokenId e) of
        None \<Rightarrow> properties d
      | Some p \<Rightarrow> (properties d)(tokenId e \<mapsto>
                    p\<lparr>available_shares := available_shares p - amount e\<rparr>))"
  by (simp add: replayEvent_def writePortfolio_def getPortfolio_def createPortfolio_def insertPortfolio_def
      updatePortfolio_def updateProperties_def toLowerCase_idem Let_def
      split: option.splits)

lemma replay_portfolio:
  "user_portfolio (replayEvent e d) =
     (user_portfolio d)((toLowerCase (buyer e), tokenId e) \<mapsto>
        (case user_portfolio d (toLowerCase (buyer e), tokenId e) of
           None \<Rightarrow> \<lparr>shares_owned = amount e, last_updated = processed_at e\<rparr>
         | Some r \<Rightarrow> r\<lparr>shares_owned := shares_owned r + amount e,
                        last_updated := processed_at e\<rparr>))"
  by (simp add: replayEvent_def writePortfolio_def getPortfolio_def createPortfolio_def insertPortfolio_def
      updatePortfolio_def updateProperties_portfolio toLowerCase_idem Let_def
      split: option.splits)



lemma replay_portfolio_new:
  "user_portfolio d (toLowerCase (buyer e), tokenId e) = None \<Longrightarrow>
   user_portfolio (replayEvent e d) (toLowerCase (buyer e), tokenId e)
     = Some \<lparr>shares_owned = amount e, last_updated = processed_at e\<rparr>"
  by (simp add: replayEvent_def writePortfolio_def getPortfolio_def createPortfolio_def insertPortfolio_def
      updateProperties_portfolio toLowerCase_idem Let_def)

lemma replay_portfolio_old:
  "user_portfolio d (toLowerCase (buyer e), tokenId e) = Some r \<Longrightarrow>
   user_portfolio (replayEvent e d) (toLowerCase (buyer e), tokenId e)
     = Some (r\<lparr>shares_owned := shares_owned r + amount e, last_updated := processed_at e\<rparr>)"
  by (simp add: replayEvent_def writePortfolio_def getPortfolio_def updatePortfolio_def
      updateProperties_portfolio Let_def)

lemma in_order_row:
  "user_portfolio (snd (applyEvents [(NoFault, ev_a), (NoFault, ev_b)] empty_db)) (alice, 1)
     = Some \<lparr>shares_owned = 15, last_updated = 1242000\<rparr>"
proof -
  have k: "toLowerCase (buyer ev_a) = alice" "tokenId ev_a = 1" "toLowerCase (buyer ev_b) = alice" "tokenId ev_b = 1"
    by (simp_all add: ev_a_def ev_b_def purchase_def alice_lower)
  have 1: "user_portfolio (storeEvent ev_a empty_db) (toLowerCase (buyer ev_a), tokenId ev_a) = None"
    by (simp add: storeEvent_portfolio empty_db_def)
  have 2: "user_portfolio (replayEvent ev_a (storeEvent ev_a empty_db)) (alice, 1)
      = Some \<lparr>shares_owned = amount ev_a, last_updated = processed_at ev_a\<rparr>"
    using replay_portfolio_new [OF 1] by (simp only: k)
  have 3: "user_portfolio (storeEvent ev_b (replayEvent ev_a (storeEvent ev_a empty_db)))
      (toLowerCase (buyer ev_b), tokenId ev_b)
      = Some \<lparr>shares_owned = amount ev_a, last_updated = processed_at ev_a\<rparr>"
    using 2 by (simp only: k storeEvent_portfolio)
  show ?thesis
    using replay_portfolio_old [OF 3]
    by (simp add: handler_NoFault k) (simp add: ev_a_def ev_b_def purchase_def)
qed

lemma replay_derived_cong:
  "derived d = derived d' \<Longrightarrow> derived (replayEvent e d) = derived (replayEvent e d')"
proof -
  assume "derived d = derived d'"
  then have p: "properties d = properties d'" and u: "user_portfolio d = user_portfolio d'"
    by (simp_all add: derived_def)
  show ?thesis
    by (simp only: derived_def replay_properties replay_portfolio p u)
qed

lemma fold_replay_cong:
  "derived d = derived d' \<Longrightarrow> derived (fold replayEvent evs d) = derived (fold replayEvent evs d')"
proof (induction evs arbitrary: d d')
  case Nil
  then show ?case by simp
next
  case (Cons e evs)
  show ?case using Cons.IH [OF replay_derived_cong [OF Cons.prems]] by simp
qed

lemma incremental_derived:
  "derived (snd (applyEvents (map (Pair NoFault) evs) d)) = derived (fold replayEvent evs d)"
proof (induction evs arbitrary: d)
  case Nil
  show ?case by simp
next
  case (Cons e evs)
  have "derived (replayEvent e (storeEvent e d)) = derived (replayEvent e d)"
    by (rule replay_derived_cong) (rule storeEvent_derived)
  then have "derived (fold replayEvent evs (replayEvent e (storeEvent e d)))
      = derived (fold replayEvent evs (replayEvent e d))"
    by (rule fold_replay_cong)
  then show ?case using Cons.IH [of "replayEvent e (storeEvent e d)"]
    by (simp add: handler_NoFault)
qed

lemma incremental_events:
  assumes "distinct (map event_key evs)"
    and "set (map event_key evs) \<inter> set (event_keys d) = {}"
  shows "blockchain_events (snd (applyEvents (map (Pair NoFault) evs) d))
           = blockchain_events d @ evs"
  using assms
proof (induction evs arbitrary: d)
  case Nil
  show ?case by simp
next
  case (Cons e evs)
  let ?d1 = "replayEvent e (storeEvent e d)"
  have n: "event_key e \<notin> set (event_keys d)"
    using Cons.prems(2) by auto
  have b: "blockchain_events ?d1 = blockchain_events d @ [e]"
    using n by (simp add: replayEvent_events storeEvent_def)
  then have k: "event_keys ?d1 = event_keys d @ [event_key e]"
    by (simp add: event_keys_def)
  have "set (map event_key evs) \<inter> set (event_keys ?d1) = {}"
    using Cons.prems by (auto simp add: k)
  moreover have "distinct (map event_key evs)"
    using Cons.prems(1) by simp
  ultimately show ?case
    using Cons.IH [of ?d1] b by (simp add: handler_NoFault)
qed

section \<open>Lower-case wallet addresses\<close>



section \<open>Order of application\<close>







section \<open>Replay equivalence\<close>

text \<open>
  Where every event is delivered once and no write fails, a rebuild from the raw event
  log gives the derived state of the incremental run.
\<close>

lemma replay_of_single_deliveries:
  assumes "distinct (map event_key evs)"
  shows "derived (replayAll (snd (applyEvents (map (Pair NoFault) evs) empty_db)))
           = derived (snd (applyEvents (map (Pair NoFault) evs) empty_db))"
proof -
  let ?d = "snd (applyEvents (map (Pair NoFault) evs) empty_db)"
  have e: "blockchain_events ?d = evs"
    using incremental_events [OF assms, of empty_db]
    by (simp add: event_keys_def empty_db_def)
  have "derived (wipeDerived ?d) = derived empty_db"
    by (simp add: derived_def wipeDerived_def empty_db_def)
  then have "derived (fold replayEvent evs (wipeDerived ?d)) = derived (fold replayEvent evs empty_db)"
    by (rule fold_replay_cong)
  then show ?thesis
    by (simp add: replayAll_def e incremental_derived)
qed

lemma db_example_row:
  "user_portfolio db_example (alice, 1) = Some \<lparr>shares_owned = 15, last_updated = 1242000\<rparr>"
  using in_order_row by (simp add: db_example_def save_def)

text \<open>
  Claim C4 against the rollback of the notes. Two purchases of one buyer are applied from
  the empty store, 10 shares in block 12390 and 5 shares in block 12420, and the
  checkpoint of the example (12450, checkpoint 12400) is saved. The chain then shows
  another hash at block 12400. The rollback deletes the raw event of block 12420 and,
  because the row was last updated at or after the timestamp of block 12400, the whole
  portfolio row, with the 10 shares of block 12390 in it. A replay of the remaining raw
  events gives that row 10 shares: the derived state after the rollback is not the state
  a replay of the remaining raw events produces.
\<close>

theorem rollback_differs_from_replay:
  "blockchain_events (checkReorg chain_reorged propertyShare db_example) = [ev_a] \<and>
   user_portfolio (checkReorg chain_reorged propertyShare db_example) (alice, 1) = None \<and>
   user_portfolio (replayAll (checkReorg chain_reorged propertyShare db_example)) (alice, 1)
     = Some \<lparr>shares_owned = 10, last_updated = 1239000\<rparr> \<and>
   derived (checkReorg chain_reorged propertyShare db_example)
     \<noteq> derived (replayAll (checkReorg chain_reorged propertyShare db_example))"
proof -
  let ?post = "checkReorg chain_reorged propertyShare db_example"
  have g: "reorgDetected chain_reorged (load propertyShare db_example)"
    by (simp add: reorgDetected_def db_example_checkpoint cp_example_def chain_reorged_def)
  have p: "?post = rollback chain_reorged propertyShare cp_example db_example"
    using g by (simp add: checkReorg_def Let_def db_example_checkpoint)
  have b: "block_number ev_a = 12390" "block_number ev_b = 12420"
    by (simp_all add: ev_a_def ev_b_def purchase_def)
  have ev: "blockchain_events ?post = [ev_a]"
    by (simp only: p) (simp add: rollback_def save_events db_example_events cp_example_def b)
  have t: "getBlockTimestamp chain_reorged 12400 = 1240000"
    by (simp add: chain_reorged_def)
  have row: "user_portfolio ?post (alice, 1) = None"
    by (simp only: p) (simp add: rollback_def save_def db_example_row cp_example_def t)
  have k: "toLowerCase (buyer ev_a) = alice" "tokenId ev_a = 1"
    "amount ev_a = 10" "processed_at ev_a = 1239000"
    by (simp_all add: ev_a_def purchase_def alice_lower)
  have "user_portfolio (wipeDerived ?post) (toLowerCase (buyer ev_a), tokenId ev_a) = None"
    by (simp add: wipeDerived_def)
  from replay_portfolio_new [OF this]
  have rep: "user_portfolio (replayAll ?post) (alice, 1)
      = Some \<lparr>shares_owned = 10, last_updated = 1239000\<rparr>"
    by (simp add: replayAll_def ev k)
  have "user_portfolio ?post (alice, 1) \<noteq> user_portfolio (replayAll ?post) (alice, 1)"
    by (simp only: row rep) simp
  then have "derived ?post \<noteq> derived (replayAll ?post)"
    by (auto simp add: derived_def)
  then show ?thesis
    using ev row rep by blast
qed

section \<open>Decode errors in a batch\<close>

lemma storeEvent_dead: "storeEvent e (d\<lparr>dead_letters := x\<rparr>) = (storeEvent e d)\<lparr>dead_letters := x\<rparr>"
  by (simp add: storeEvent_def event_keys_def)

lemma replayEvent_dead: "replayEvent e (d\<lparr>dead_letters := x\<rparr>) = (replayEvent e d)\<lparr>dead_letters := x\<rparr>"
  by (simp add: replayEvent_def writePortfolio_def getPortfolio_def createPortfolio_def insertPortfolio_def
      updatePortfolio_def updateProperties_def toLowerCase_idem Let_def split: option.splits)

lemma replayEvent_dead_same: "dead_letters (replayEvent e d) = dead_letters d"
  by (simp add: replayEvent_def writePortfolio_def getPortfolio_def createPortfolio_def insertPortfolio_def
      updatePortfolio_def updateProperties_def toLowerCase_idem Let_def split: option.splits)

lemma storeEvent_dead_same: "dead_letters (storeEvent e d) = dead_letters d"
  by (simp add: storeEvent_def)

lemma applyEvents_dead:
  "snd (applyEvents (map (Pair NoFault) evs) (d\<lparr>dead_letters := x\<rparr>))
     = (snd (applyEvents (map (Pair NoFault) evs) d))\<lparr>dead_letters := x\<rparr>"
proof (induction evs arbitrary: d)
  case Nil
  show ?case by simp
next
  case (Cons e evs)
  show ?case
    using Cons.IH [of "replayEvent e (storeEvent e d)"]
    by (simp add: handler_NoFault storeEvent_dead replayEvent_dead)
qed

lemma applyEvents_dead_same:
  "dead_letters (snd (applyEvents (map (Pair NoFault) evs) d)) = dead_letters d"
proof (induction evs arbitrary: d)
  case Nil
  show ?case by simp
next
  case (Cons e evs)
  show ?case
    using Cons.IH [of "replayEvent e (storeEvent e d)"]
    by (simp add: handler_NoFault replayEvent_dead_same storeEvent_dead_same)
qed

lemma processBatch_decoded:
  "processBatch decode (map (Pair NoFault) logs) d =
     (None, (snd (applyEvents (map (Pair NoFault) (decodedEvents decode logs)) d))
              \<lparr>dead_letters := dead_letters d @ decodeFailures decode logs\<rparr>)"
proof (induction logs arbitrary: d)
  case Nil
  show ?case by (simp add: decodedEvents_def decodeFailures_def)
next
  case (Cons l logs)
  show ?case
  proof (cases "decode l")
    case (Inl err)
    have de: "decodedEvents decode (l # logs) = decodedEvents decode logs"
      using Inl by (simp add: decodedEvents_def)
    have df: "decodeFailures decode (l # logs) = (l, err) # decodeFailures decode logs"
      using Inl by (simp add: decodeFailures_def)
    show ?thesis
      using Inl Cons.IH [of "d\<lparr>dead_letters := dead_letters d @ [(l, err)]\<rparr>"]
      by (simp add: de df applyEvents_dead)
  next
    case (Inr e)
    have de: "decodedEvents decode (l # logs) = e # decodedEvents decode logs"
      using Inr by (simp add: decodedEvents_def)
    have df: "decodeFailures decode (l # logs) = decodeFailures decode logs"
      using Inr by (simp add: decodeFailures_def)
    show ?thesis
      using Inr Cons.IH [of "replayEvent e (storeEvent e d)"]
      by (simp add: de df handler_NoFault replayEvent_dead_same storeEvent_dead_same)
  qed
qed

lemma applyEvents_recorded:
  "e \<in> set evs \<Longrightarrow>
   event_key e \<in> set (event_keys (snd (applyEvents (map (Pair NoFault) evs) d)))"
proof (induction evs arbitrary: d)
  case Nil
  then show ?case by simp
next
  case (Cons x evs)
  let ?d1 = "replayEvent x (storeEvent x d)"
  have s: "snd (applyEvents (map (Pair NoFault) (x # evs)) d)
      = snd (applyEvents (map (Pair NoFault) evs) ?d1)"
    by (simp add: handler_NoFault)
  show ?case
  proof (cases "e = x")
    case True
    have "event_key x \<in> set (event_keys ?d1)"
      using storeEvent_key [of x d] by (simp add: event_keys_def replayEvent_events)
    moreover have "set (event_keys ?d1)
        \<subseteq> set (event_keys (fold execWrite (batchWrites (map (Pair NoFault) evs)) ?d1))"
      by (rule fold_execWrite_keys)
    ultimately have "event_key x \<in> set (event_keys (snd (applyEvents (map (Pair NoFault) evs) ?d1)))"
      by (auto simp add: applyEvents_writes)
    then show ?thesis
      using True by (simp only: s)
  next
    case False
    then have "e \<in> set evs" using Cons.prems by simp
    then show ?thesis using Cons.IH [of ?d1] by (simp only: s)
  qed
qed

lemma applyEvents_events_sub:
  "set (blockchain_events (snd (applyEvents (map (Pair NoFault) evs) d)))
     \<subseteq> set (blockchain_events d) \<union> set evs"
proof (induction evs arbitrary: d)
  case Nil
  show ?case by simp
next
  case (Cons x evs)
  let ?d1 = "replayEvent x (storeEvent x d)"
  have "set (blockchain_events ?d1) \<subseteq> set (blockchain_events d) \<union> {x}"
    by (auto simp add: replayEvent_events storeEvent_def)
  then show ?case
    using Cons.IH [of ?d1] by (auto simp add: handler_NoFault)
qed

lemma zip_const: "length ys = length xs \<Longrightarrow> zip (map (\<lambda>i. c) ys) xs = map (Pair c) xs"
  by (induction ys xs rule: list_induct2) simp_all

lemma attachFaults_no_fault: "attachFaults no_fault xs = map (Pair NoFault) xs"
proof -
  have "no_fault = (\<lambda>i. NoFault)"
    by (simp add: fun_eq_iff no_fault_def)
  then show ?thesis
    using zip_const [of "[0..<length xs]" xs NoFault] by (simp add: attachFaults_def)
qed

lemma save_dead: "dead_letters (save addr cp d) = dead_letters d"
  by (simp add: save_def)

lemma decodeFailures_mem:
  "l \<in> set logs \<Longrightarrow> decode l = Inl err \<Longrightarrow> (l, err) \<in> set (decodeFailures decode logs)"
  by (induction logs) (auto simp add: decodeFailures_def split: sum.splits)

lemma runCycle_no_fault:
  assumes "available ch"
    and "last_processed_block (load addr (checkReorg ch addr d))
           < computeToBlock cfg ch (load addr (checkReorg ch addr d))"
  shows "runCycle cfg ch decode no_fault addr d =
     (None, save addr
        (advanceCheckpoint cfg ch (computeToBlock cfg ch (load addr (checkReorg ch addr d)))
           (load addr (checkReorg ch addr d)))
        (snd (processBatch decode (map (Pair NoFault)
           (getLogs ch (fromBlock (load addr (checkReorg ch addr d)))
              (computeToBlock cfg ch (load addr (checkReorg ch addr d)))))
           (checkReorg ch addr d))))"
  using assms
  by (simp add: runCycle_def Let_def attachFaults_no_fault processBatch_decoded)

text \<open>
  Claim C7, on the driver loop modelled from the spec. For every batch without a failing
  write, whatever the decoder: the batch is not halted; the store after it is the store
  after handling the events of the logs that decode, with each log that does not decode
  added to the dead letters together with its error; every decoded event is recorded; no
  raw event is recorded other than the ones already stored and the decoded events; and a
  cycle over a range with such a log ends without error and keeps the dead letter.
\<close>

theorem decode_failure_in_batch:
  "processBatch decode (map (Pair NoFault) logs) d =
     (None, (snd (applyEvents (map (Pair NoFault) (decodedEvents decode logs)) d))
              \<lparr>dead_letters := dead_letters d @ decodeFailures decode logs\<rparr>) \<and>
   (\<forall>e \<in> set (decodedEvents decode logs).
      event_key e \<in> set (event_keys (snd (processBatch decode (map (Pair NoFault) logs) d)))) \<and>
   set (blockchain_events (snd (processBatch decode (map (Pair NoFault) logs) d)))
     \<subseteq> set (blockchain_events d) \<union> set (decodedEvents decode logs) \<and>
   (l \<in> set logs \<and> decode l = Inl err \<longrightarrow>
      (l, err) \<in> set (dead_letters (snd (processBatch decode (map (Pair NoFault) logs) d)))) \<and>
   (available ch \<and>
    last_processed_block (load addr (checkReorg ch addr d0))
      < computeToBlock cfg ch (load addr (checkReorg ch addr d0)) \<and>
    l0 \<in> set (getLogs ch (fromBlock (load addr (checkReorg ch addr d0)))
                 (computeToBlock cfg ch (load addr (checkReorg ch addr d0)))) \<and>
    decode l0 = Inl err0 \<longrightarrow>
      fst (runCycle cfg ch decode no_fault addr d0) = None \<and>
      (l0, err0) \<in> set (dead_letters (snd (runCycle cfg ch decode no_fault addr d0))))"
proof -
  have f: "l \<in> set logs \<and> decode l = Inl err \<longrightarrow> (l, err) \<in> set (decodeFailures decode logs)"
    using decodeFailures_mem by blast
  have k: "event_keys (x\<lparr>dead_letters := y\<rparr>) = event_keys x" for x y
    by (simp add: event_keys_def)
  have r: "\<forall>e \<in> set (decodedEvents decode logs).
      event_key e \<in> set (event_keys (snd (applyEvents (map (Pair NoFault)
          (decodedEvents decode logs)) d)))"
    using applyEvents_recorded by blast
  have c: "available ch \<and>
    last_processed_block (load addr (checkReorg ch addr d0))
      < computeToBlock cfg ch (load addr (checkReorg ch addr d0)) \<and>
    l0 \<in> set (getLogs ch (fromBlock (load addr (checkReorg ch addr d0)))
                 (computeToBlock cfg ch (load addr (checkReorg ch addr d0)))) \<and>
    decode l0 = Inl err0 \<longrightarrow>
      fst (runCycle cfg ch decode no_fault addr d0) = None \<and>
      (l0, err0) \<in> set (dead_letters (snd (runCycle cfg ch decode no_fault addr d0)))"
    using decodeFailures_mem [of l0 _ decode err0]
    by (auto simp add: runCycle_no_fault save_dead processBatch_decoded)
  have m: "processBatch decode (map (Pair NoFault) logs) d =
     (None, (snd (applyEvents (map (Pair NoFault) (decodedEvents decode logs)) d))
              \<lparr>dead_letters := dead_letters d @ decodeFailures decode logs\<rparr>) \<and>
   (\<forall>e \<in> set (decodedEvents decode logs).
      event_key e \<in> set (event_keys (snd (processBatch decode (map (Pair NoFault) logs) d)))) \<and>
   set (blockchain_events (snd (processBatch decode (map (Pair NoFault) logs) d)))
     \<subseteq> set (blockchain_events d) \<union> set (decodedEvents decode logs) \<and>
   (l \<in> set logs \<and> decode l = Inl err \<longrightarrow>
      (l, err) \<in> set (dead_letters (snd (processBatch decode (map (Pair NoFault) logs) d))))"
    using f r applyEvents_events_sub [of "decodedEvents decode logs" d]
    by (simp add: processBatch_decoded k)
  show ?thesis
    using m c by (intro conjI) blast+
qed

lemma decode_batch5:
  "decodedEvents decode0 batch5 =
     [purchase 12451 ''0xt1'' 0 alice 2 1245100, purchase 12452 ''0xt2'' 0 alice 3 1245200,
      purchase 12454 ''0xt4'' 0 alice 1 1245400, purchase 12455 ''0xt5'' 0 alice 2 1245500]"
  by (simp add: decodedEvents_def batch5_def decode0_def mkLog_def)

lemma failures_batch5:
  "decodeFailures decode0 batch5 = [(mkLog 12453 ''0xt3'' [], MalformedData)]"
  by (simp add: decodeFailures_def batch5_def decode0_def mkLog_def)

lemma db_start_noreorg5: "checkReorg chain_five propertyShare db_start = db_start"
  by (simp add: checkReorg_def reorgDetected_def db_start_checkpoint cp_example_def
      chain_five_def chain_same_def chain_reorged_def Let_def)

lemma toBlock_five: "computeToBlock cfg0 chain_five cp_example = 12457"
  by (simp add: computeToBlock_def cfg0_def chain_five_def chain_same_def chain_reorged_def
      cp_example_def)

theorem decode_failure_in_batch_witness:
  "mkLog 12453 ''0xt3'' [] \<in> set batch5 \<and>
   decode0 (mkLog 12453 ''0xt3'' []) = Inl MalformedData \<and>
   fst (processBatch decode0 (map (Pair NoFault) batch5) db1) = None \<and>
   dead_letters (snd (processBatch decode0 (map (Pair NoFault) batch5) db1))
     = [(mkLog 12453 ''0xt3'' [], MalformedData)] \<and>
   purchase 12454 ''0xt4'' 0 alice 1 1245400 \<in> set (decodedEvents decode0 batch5) \<and>
   event_key (purchase 12454 ''0xt4'' 0 alice 1 1245400)
     \<in> set (event_keys (snd (processBatch decode0 (map (Pair NoFault) batch5) db1))) \<and>
   (''0xt3'', 0) \<notin> set (event_keys (snd (processBatch decode0 (map (Pair NoFault) batch5) db1))) \<and>
   available chain_five \<and>
   last_processed_block (load propertyShare (checkReorg chain_five propertyShare db_start))
     < computeToBlock cfg0 chain_five (load propertyShare (checkReorg chain_five propertyShare db_start)) \<and>
   fst (runCycle cfg0 chain_five decode0 no_fault propertyShare db_start) = None \<and>
   (mkLog 12453 ''0xt3'' [], MalformedData)
     \<in> set (dead_letters (snd (runCycle cfg0 chain_five decode0 no_fault propertyShare db_start)))"
proof -
  let ?res = "processBatch decode0 (map (Pair NoFault) batch5) db1"
  let ?bad = "mkLog 12453 ''0xt3'' []"
  have m: "?bad \<in> set batch5"
    by (simp add: batch5_def)
  have b: "decode0 ?bad = Inl MalformedData"
    by (simp add: decode0_def mkLog_def)
  have g: "purchase 12454 ''0xt4'' 0 alice 1 1245400 \<in> set (decodedEvents decode0 batch5)"
    by (simp add: decode_batch5)
  have e0: "blockchain_events db1 = []" "dead_letters db1 = []"
    by (simp_all add: db1_def empty_db_def)
  have av: "available chain_five"
    by (simp add: chain_five_def chain_same_def chain_reorged_def)
  have lt: "last_processed_block (load propertyShare (checkReorg chain_five propertyShare db_start))
     < computeToBlock cfg0 chain_five (load propertyShare (checkReorg chain_five propertyShare db_start))"
    by (simp add: db_start_noreorg5 db_start_checkpoint toBlock_five) (simp add: cp_example_def)
  have gl: "?bad \<in> set (getLogs chain_five
      (fromBlock (load propertyShare (checkReorg chain_five propertyShare db_start)))
      (computeToBlock cfg0 chain_five (load propertyShare (checkReorg chain_five propertyShare db_start))))"
    using m by (simp add: chain_five_def)
  note t = decode_failure_in_batch [of decode0 batch5 db1 ?bad MalformedData chain_five
      propertyShare db_start cfg0 ?bad MalformedData]
  have r1: "fst ?res = None"
    using t [THEN conjunct1] by simp
  have r2: "dead_letters (snd ?res) = [(?bad, MalformedData)]"
    using t [THEN conjunct1] by (simp add: e0 failures_batch5)
  have r3: "event_key (purchase 12454 ''0xt4'' 0 alice 1 1245400) \<in> set (event_keys (snd ?res))"
    using t [THEN conjunct2, THEN conjunct1] g by blast
  have sub: "set (blockchain_events (snd ?res)) \<subseteq> set (decodedEvents decode0 batch5)"
    using t [THEN conjunct2, THEN conjunct2, THEN conjunct1] by (simp only: e0) simp
  have "(''0xt3'', 0) \<notin> event_key ` set (decodedEvents decode0 batch5)"
    by (simp add: decode_batch5 event_key_def purchase_def)
  then have r4: "(''0xt3'', 0) \<notin> set (event_keys (snd ?res))"
    using sub by (auto simp add: event_keys_def)
  have r5: "fst (runCycle cfg0 chain_five decode0 no_fault propertyShare db_start) = None \<and>
   (?bad, MalformedData)
     \<in> set (dead_letters (snd (runCycle cfg0 chain_five decode0 no_fault propertyShare db_start)))"
    using t [THEN conjunct2, THEN conjunct2, THEN conjunct2, THEN conjunct2] av lt gl b
    by blast
  show ?thesis
    using m b g r1 r2 r3 r4 r5 av lt by blast
qed

end
